theory Spec2Isabelle
  imports Complex_Main
begin

section \<open>Strings and characters\<close>

text \<open>
  A JavaScript string is modelled as a \<^typ>\<open>string\<close>, one \<^typ>\<open>char\<close> per code unit.
  The character classes below are the ones of the regular-expression engine on the
  ASCII range: \<^verbatim>\<open>\s\<close> is tab, line feed, vertical tab, form feed, carriage return and
  space; \<^verbatim>\<open>\w\<close> is a letter, a digit or the underscore; \<^verbatim>\<open>.\<close> is anything but a line
  terminator. Case mapping is the one of ASCII letters. Outside the ASCII range the model
  does not follow the engine, for which the no-break space is white space too and which
  maps other letters than a to z to capitals.
\<close>

definition LF :: char where "LF = CHR 0x0A"
definition CR :: char where "CR = CHR 0x0D"
definition TAB :: char where "TAB = CHR 0x09"
definition DQ :: char where "DQ = CHR 0x22"

definition code :: "char \<Rightarrow> nat" where
  "code c = of_char c"

definition is_space :: "char \<Rightarrow> bool" where
  "is_space c \<longleftrightarrow> c \<in> set [CHR 0x09, CHR 0x0A, CHR 0x0B, CHR 0x0C, CHR 0x0D, CHR 0x20]"

definition is_digit :: "char \<Rightarrow> bool" where
  "is_digit c \<longleftrightarrow> 48 \<le> code c \<and> code c \<le> 57"

definition is_upper :: "char \<Rightarrow> bool" where
  "is_upper c \<longleftrightarrow> 65 \<le> code c \<and> code c \<le> 90"

definition is_lower :: "char \<Rightarrow> bool" where
  "is_lower c \<longleftrightarrow> 97 \<le> code c \<and> code c \<le> 122"

definition is_wordc :: "char \<Rightarrow> bool" where
  "is_wordc c \<longleftrightarrow> is_upper c \<or> is_lower c \<or> is_digit c \<or> c = CHR ''_''"

definition upper_char :: "char \<Rightarrow> char" where
  "upper_char c = (if is_lower c then char_of (code c - 32) else c)"

definition lower_char :: "char \<Rightarrow> char" where
  "lower_char c = (if is_upper c then char_of (code c + 32) else c)"

definition toUpperCase :: "string \<Rightarrow> string" where
  "toUpperCase s = map upper_char s"

definition toLowerCase :: "string \<Rightarrow> string" where
  "toLowerCase s = map lower_char s"

text \<open>\<^verbatim>\<open>trimEnd\<close>, \<^verbatim>\<open>trimStart\<close> and \<^verbatim>\<open>trim\<close> strip white space and line terminators.\<close>

definition trimStart :: "string \<Rightarrow> string" where
  "trimStart s = dropWhile is_space s"

definition trimEnd :: "string \<Rightarrow> string" where
  "trimEnd s = rev (dropWhile is_space (rev s))"

definition trim :: "string \<Rightarrow> string" where
  "trim s = trimEnd (trimStart s)"

text \<open>\<^verbatim>\<open>xs.join(sep)\<close>.\<close>

fun join :: "string \<Rightarrow> string list \<Rightarrow> string" where
  "join sep [] = []"
| "join sep [x] = x"
| "join sep (x # y # ys) = x @ sep @ join sep (y # ys)"

text \<open>\<^verbatim>\<open>s.split(c)\<close> for a one-character separator: never an empty list.\<close>

fun split_on :: "char \<Rightarrow> string \<Rightarrow> string list" where
  "split_on c [] = [[]]"
| "split_on c (x # xs) =
     (if x = c then [] # split_on c xs
      else (case split_on c xs of [] \<Rightarrow> [[x]] | y # ys \<Rightarrow> (x # y) # ys))"

fun starts_with :: "string \<Rightarrow> string \<Rightarrow> bool" where
  "starts_with s [] = True"
| "starts_with [] (y # ys) = False"
| "starts_with (x # xs) (y # ys) = (x = y \<and> starts_with xs ys)"

text \<open>\<^verbatim>\<open>s.includes(sub)\<close>.\<close>

fun includes_str :: "string \<Rightarrow> string \<Rightarrow> bool" where
  "includes_str [] sub = (sub = [])"
| "includes_str (x # xs) sub = (starts_with (x # xs) sub \<or> includes_str xs sub)"

definition endsWith :: "string \<Rightarrow> string \<Rightarrow> bool" where
  "endsWith s suf = starts_with (rev s) (rev suf)"

text \<open>\<^verbatim>\<open>s.repeat(n)\<close>.\<close>

fun repeat :: "string \<Rightarrow> nat \<Rightarrow> string" where
  "repeat s 0 = []"
| "repeat s (Suc n) = s @ repeat s n"

section \<open>Regular expressions\<close>

text \<open>
  The source is written with regular-expression literals. They are embedded as syntax trees
  and run by a backtracking matcher that returns every way to match, in the order in which
  the engine tries them (greedy quantifiers first take as much as they can), so that the
  head of the list is the match the engine reports. Every quantifier of the source applies
  to a character class, which is all \<open>Many\<close> supports.
\<close>

datatype cls =
    OneOf string
  | Between char char
  | Digit
  | WordC
  | Space
  | Dot
  | Or cls cls
  | Neg cls
  | CI cls

fun cmem :: "cls \<Rightarrow> char \<Rightarrow> bool" where
  "cmem (OneOf s) c = (c \<in> set s)"
| "cmem (Between a b) c = (code a \<le> code c \<and> code c \<le> code b)"
| "cmem Digit c = is_digit c"
| "cmem WordC c = is_wordc c"
| "cmem Space c = is_space c"
| "cmem Dot c = (c \<noteq> LF \<and> c \<noteq> CR)"
| "cmem (Or a b) c = (cmem a c \<or> cmem b c)"
| "cmem (Neg a) c = (\<not> cmem a c)"
| "cmem (CI a) c = (cmem a (lower_char c) \<or> cmem a (upper_char c))"

datatype regex =
    Empty
  | Cls cls
  | Many nat "nat option" cls
  | Seq regex regex
  | Alt regex regex
  | Grp nat regex
  | Bol
  | Eol
  | WordB
  | NotAhead regex

text \<open>
  A matcher state: the character before the current position (\<open>None\<close> at the start of
  the input), the input still to read, and the capture groups set so far.
\<close>

type_synonym caps = "(nat \<times> string) list"
type_synonym mstate = "char option \<times> string \<times> caps"

definition word_before :: "char option \<Rightarrow> bool" where
  "word_before p = (case p of None \<Rightarrow> False | Some c \<Rightarrow> is_wordc c)"

definition word_after :: "string \<Rightarrow> bool" where
  "word_after r = (case r of [] \<Rightarrow> False | c # _ \<Rightarrow> is_wordc c)"

definition advance :: "nat \<Rightarrow> mstate \<Rightarrow> mstate" where
  "advance j st = (case st of (p, r, c) \<Rightarrow>
     (if j = 0 then p else Some (r ! (j - 1)), drop j r, c))"

definition span :: "cls \<Rightarrow> nat option \<Rightarrow> string \<Rightarrow> nat" where
  "span k n r = (let avail = length (takeWhile (cmem k) r)
                 in case n of None \<Rightarrow> avail | Some b \<Rightarrow> min b avail)"

fun matches :: "regex \<Rightarrow> mstate \<Rightarrow> mstate list" where
  "matches Empty st = [st]"
| "matches (Cls k) (p, r, c) =
     (case r of [] \<Rightarrow> [] | x # xs \<Rightarrow> if cmem k x then [(Some x, xs, c)] else [])"
| "matches (Many m n k) (p, r, c) =
     map (\<lambda>j. advance j (p, r, c)) (rev [m ..< Suc (span k n r)])"
| "matches (Seq a b) st = concat (map (matches b) (matches a st))"
| "matches (Alt a b) st = matches a st @ matches b st"
| "matches (Grp i a) (p, r, c) =
     map (\<lambda>(p', r', c'). (p', r', (i, take (length r - length r') r) # c'))
       (matches a (p, r, c))"
| "matches Bol (p, r, c) = (if p = None then [(p, r, c)] else [])"
| "matches Eol (p, r, c) = (if r = [] then [(p, r, c)] else [])"
| "matches WordB (p, r, c) =
     (if word_before p \<noteq> word_after r then [(p, r, c)] else [])"
| "matches (NotAhead a) st = (if matches a st = [] then [st] else [])"

definition seqs :: "regex list \<Rightarrow> regex" where
  "seqs rs = foldr Seq rs Empty"

definition Lit :: "string \<Rightarrow> regex" where
  "Lit s = seqs (map (\<lambda>c. Cls (OneOf [c])) s)"

definition LitCI :: "string \<Rightarrow> regex" where
  "LitCI s = seqs (map (\<lambda>c. Cls (CI (OneOf [c]))) s)"

definition grp :: "caps \<Rightarrow> nat \<Rightarrow> string option" where
  "grp c i = map_of c i"

text \<open>A group that took no part in the match is the empty string in a replacement.\<close>

definition grp_text :: "caps \<Rightarrow> nat \<Rightarrow> string" where
  "grp_text c i = (case map_of c i of None \<Rightarrow> [] | Some s \<Rightarrow> s)"

text \<open>
  \<^verbatim>\<open>s.match(re)\<close> without the global flag: the leftmost match, as the matched text and the
  capture groups.
\<close>

fun search :: "regex \<Rightarrow> char option \<Rightarrow> string \<Rightarrow> (string \<times> caps) option" where
  "search re p [] =
     (case matches re (p, [], []) of [] \<Rightarrow> None | (p', r', c) # _ \<Rightarrow> Some ([], c))"
| "search re p (x # xs) =
     (case matches re (p, x # xs, []) of
        [] \<Rightarrow> search re (Some x) xs
      | (p', r', c) # _ \<Rightarrow> Some (take (length (x # xs) - length r') (x # xs), c))"

definition re_match :: "regex \<Rightarrow> string \<Rightarrow> (string \<times> caps) option" where
  "re_match re s = search re None s"

definition re_test :: "regex \<Rightarrow> string \<Rightarrow> bool" where
  "re_test re s = (re_match re s \<noteq> None)"

text \<open>
  \<^verbatim>\<open>s.replace(re, f)\<close> with the global flag: matches are replaced from left to right; after
  an empty match the engine steps over one character.
\<close>

function replace_go ::
  "regex \<Rightarrow> (string \<Rightarrow> caps \<Rightarrow> string) \<Rightarrow> char option \<Rightarrow> string \<Rightarrow> string" where
  "replace_go re f p r =
     (case matches re (p, r, []) of
        [] \<Rightarrow> (case r of [] \<Rightarrow> [] | x # xs \<Rightarrow> x # replace_go re f (Some x) xs)
      | (p', r', c) # _ \<Rightarrow>
          (if length r' < length r
           then f (take (length r - length r') r) c @ replace_go re f p' r'
           else f [] c @ (case r of [] \<Rightarrow> [] | x # xs \<Rightarrow> x # replace_go re f (Some x) xs)))"
  by pat_completeness auto
termination
  by (relation "measure (\<lambda>(re, f, p, r). length r)") auto

declare replace_go.simps [simp del]

definition replace_all :: "regex \<Rightarrow> (string \<Rightarrow> caps \<Rightarrow> string) \<Rightarrow> string \<Rightarrow> string" where
  "replace_all re f s = replace_go re f None s"

text \<open>
  \<^verbatim>\<open>s.split(re)\<close>: \<open>cur\<close> is the piece being collected. A match that is empty at the start
  of a piece is skipped. (No separator of the source has a capture group.)
\<close>

function split_go :: "regex \<Rightarrow> char option \<Rightarrow> string \<Rightarrow> string \<Rightarrow> string list" where
  "split_go re p r cur =
     (case r of
        [] \<Rightarrow> [cur]
      | x # xs \<Rightarrow>
          (case matches re (p, r, []) of
             [] \<Rightarrow> split_go re (Some x) xs (cur @ [x])
           | (p', r', c) # _ \<Rightarrow>
               (if length r' < length r then cur # split_go re p' r' []
                else if cur = [] then split_go re (Some x) xs (cur @ [x])
                else cur # split_go re p r [])))"
  by pat_completeness auto
termination
  by (relation "measure (\<lambda>(re, p, r, cur). 2 * length r + (if cur = [] then 0 else 1))") auto

declare split_go.simps [simp del]

definition re_split :: "regex \<Rightarrow> string \<Rightarrow> string list" where
  "re_split re s =
     (if s = [] then (if matches re (None, [], []) = [] then [[]] else [])
      else split_go re None s [])"


section \<open>The markdown generator\<close>

text \<open>Source: \<^verbatim>\<open>src/utils/markdown-generator.js\<close>, class \<^verbatim>\<open>MarkdownGenerator\<close>.\<close>

datatype error = ReferenceError | TypeError

definition upperAZ :: cls where
  "upperAZ = Between CHR ''A'' CHR ''Z''"

definition dotParen :: cls where
  "dotParen = OneOf ''.)''"

text \<open>
  \<^verbatim>\<open>initializeHeadingPatterns\<close>: the table, in the order of the source:
  \<^enum> \<^verbatim>\<open>/^[IVX]+[\.\)]\s+(.+)$/i\<close> (Roman numerals),
  \<^enum> \<^verbatim>\<open>/^(\d+)[\.\)]\s+(.+)$/\<close> (numbers),
  \<^enum> \<^verbatim>\<open>/^([A-Z])[\.\)]\s+(.+)$/\<close> (letters),
  \<^enum> \<^verbatim>\<open>/^([A-Z][A-Z\s]{2,50})$/\<close> (all capitals),
  \<^enum> \<^verbatim>\<open>/^(\d+\.\d+)\s+(.+)$/\<close> (numbered sections),
  \<^enum> \<^verbatim>\<open>/^(CHAPTER|SECTION|PART|APPENDIX)\s+(.+)$/i\<close>.

  The flag \<^verbatim>\<open>i\<close> of the first and the last only matters for their letters.
\<close>

definition romanPattern :: regex where
  "romanPattern = seqs [Bol, Many 1 None (CI (OneOf ''IVX'')), Cls dotParen, Many 1 None Space,
                        Grp 1 (Many 1 None Dot), Eol]"

definition numberPattern :: regex where
  "numberPattern = seqs [Bol, Grp 1 (Many 1 None Digit), Cls dotParen, Many 1 None Space,
                         Grp 2 (Many 1 None Dot), Eol]"

definition letterPattern :: regex where
  "letterPattern = seqs [Bol, Grp 1 (Cls upperAZ), Cls dotParen, Many 1 None Space,
                         Grp 2 (Many 1 None Dot), Eol]"

definition allCapsPattern :: regex where
  "allCapsPattern =
     seqs [Bol, Grp 1 (Seq (Cls upperAZ) (Many 2 (Some 50) (Or upperAZ Space))), Eol]"

definition sectionPattern :: regex where
  "sectionPattern =
     seqs [Bol, Grp 1 (seqs [Many 1 None Digit, Cls (OneOf ''.''), Many 1 None Digit]),
           Many 1 None Space, Grp 2 (Many 1 None Dot), Eol]"

definition chapterPattern :: regex where
  "chapterPattern =
     seqs [Bol, Grp 1 (Alt (LitCI ''CHAPTER'') (Alt (LitCI ''SECTION'')
                        (Alt (LitCI ''PART'') (LitCI ''APPENDIX'')))),
           Many 1 None Space, Grp 2 (Many 1 None Dot), Eol]"

definition headingPatterns :: "regex list" where
  "headingPatterns = [romanPattern, numberPattern, letterPattern, allCapsPattern,
                      sectionPattern, chapterPattern]"

text \<open>\<^verbatim>\<open>parseInt\<close> on a string of decimal digits.\<close>

definition parseInt :: "string \<Rightarrow> nat" where
  "parseInt s = foldl (\<lambda>n c. 10 * n + (code c - 48)) 0 s"

text \<open>
  \<^verbatim>\<open>determineHeadingLevel(match, patternIndex)\<close>. Case 3 reads \<^verbatim>\<open>line.length\<close>, and no
  variable \<^verbatim>\<open>line\<close> is in scope in this method (its parameters are \<^verbatim>\<open>match\<close> and
  \<^verbatim>\<open>patternIndex\<close>, the module declares none): evaluating it raises a ReferenceError.
\<close>

definition determineHeadingLevel :: "caps \<Rightarrow> nat \<Rightarrow> error + nat" where
  "determineHeadingLevel match patternIndex =
     (if patternIndex = 0 then Inr 1
      else if patternIndex = 1 then Inr (if parseInt (grp_text match 1) \<le> 3 then 2 else 3)
      else if patternIndex = 2 then Inr 3
      else if patternIndex = 3 then Inl ReferenceError
      else if patternIndex = 4 then Inr 2
      else if patternIndex = 5 then Inr 1
      else Inr 2)"

text \<open>\<^verbatim>\<open>a || b\<close> on two values that are a string or undefined.\<close>

definition js_or :: "string option \<Rightarrow> string option \<Rightarrow> string option" where
  "js_or a b = (case a of Some s \<Rightarrow> if s \<noteq> [] then Some s else b | None \<Rightarrow> b)"

text \<open>String concatenation writes an undefined value as the word undefined.\<close>

definition str_of :: "string option \<Rightarrow> string" where
  "str_of a = (case a of Some s \<Rightarrow> s | None \<Rightarrow> ''undefined'')"

text \<open>\<^verbatim>\<open>toTitleCase\<close>: \<^verbatim>\<open>str.toLowerCase().replace(/\b\w/g, l => l.toUpperCase())\<close>.\<close>

definition toTitleCase :: "string \<Rightarrow> string" where
  "toTitleCase str =
     replace_all (Seq WordB (Cls WordC)) (\<lambda>m c. toUpperCase m) (toLowerCase str)"

definition extractHeadingText :: "string \<Rightarrow> caps \<Rightarrow> nat \<Rightarrow> string option" where
  "extractHeadingText m0 match patternIndex =
     (if patternIndex = 0 \<or> patternIndex = 1 \<or> patternIndex = 2
        then js_or (grp match 2) (grp match 1)
      else if patternIndex = 3 then Some (toTitleCase (str_of (grp match 1)))
      else if patternIndex = 4 then grp match 2
      else if patternIndex = 5 then grp match 2
      else js_or (grp match 1) (Some m0))"

record heading =
  level :: nat
  htext :: "string option"
  markdown :: string

text \<open>\<^verbatim>\<open>detectUnderlinedHeading\<close> always answers null.\<close>

definition detectUnderlinedHeading :: "string \<Rightarrow> heading option" where
  "detectUnderlinedHeading line = None"

text \<open>
  \<^verbatim>\<open>detectHeading\<close>: the loop over the pattern table, from index \<open>i\<close> on. The level is
  computed before the text, so an exception of \<^verbatim>\<open>determineHeadingLevel\<close> leaves the method.
\<close>

fun detectHeading_from :: "regex list \<Rightarrow> nat \<Rightarrow> string \<Rightarrow> error + heading option" where
  "detectHeading_from [] i line = Inr (detectUnderlinedHeading line)"
| "detectHeading_from (pattern # rest) i line =
     (case re_match pattern line of
        None \<Rightarrow> detectHeading_from rest (Suc i) line
      | Some (m0, match) \<Rightarrow>
          (case determineHeadingLevel match i of
             Inl e \<Rightarrow> Inl e
           | Inr lv \<Rightarrow>
               (let t = extractHeadingText m0 match i
                in Inr (Some \<lparr> level = lv, htext = t,
                                markdown = repeat ''#'' lv @ '' '' @ str_of t \<rparr>))))"

definition detectHeading :: "string \<Rightarrow> error + heading option" where
  "detectHeading line = detectHeading_from headingPatterns 0 line"

datatype list_kind = bullet | numbered

record list_item =
  li_level :: nat
  li_type :: list_kind
  li_markdown :: string

text \<open>
  \<^verbatim>\<open>detectListItem\<close>. Of the bullet class \<^verbatim>\<open>[\u2022\u2023\u25E6\u2043\u2219\-\*]\<close> only the
  hyphen and the asterisk are ASCII.
\<close>

definition bulletRe :: regex where
  "bulletRe = seqs [Bol, Grp 1 (Many 0 None Space), Grp 2 (Cls (OneOf ''-*'')),
                    Many 1 None Space, Grp 3 (Many 1 None Dot), Eol]"

definition numberedRe :: regex where
  "numberedRe = seqs [Bol, Grp 1 (Many 0 None Space), Grp 2 (Many 1 None Digit), Cls dotParen,
                      Many 1 None Space, Grp 3 (Many 1 None Dot), Eol]"

definition detectListItem :: "string \<Rightarrow> list_item option" where
  "detectListItem line =
     (case re_match bulletRe line of
        Some (m0, bulletMatch) \<Rightarrow>
          (let indent = length (grp_text bulletMatch 1); lv = indent div 2 + 1
           in Some \<lparr> li_level = lv, li_type = bullet,
                     li_markdown = repeat ''  '' (lv - 1) @ ''- '' @ grp_text bulletMatch 3 \<rparr>)
      | None \<Rightarrow>
          (case re_match numberedRe line of
             Some (m0, numberedMatch) \<Rightarrow>
               (let indent = length (grp_text numberedMatch 1); lv = indent div 2 + 1
                in Some \<lparr> li_level = lv, li_type = numbered,
                          li_markdown = repeat ''  '' (lv - 1) @ grp_text numberedMatch 2 @ ''. ''
                                        @ grp_text numberedMatch 3 \<rparr>)
           | None \<Rightarrow> None))"

text \<open>\<^verbatim>\<open>looksLikeTableRow\<close>: \<^verbatim>\<open>line.match(/\w+\s{2,}\w+/) || line.includes('\t')\<close>.\<close>

definition looksLikeTableRow :: "string \<Rightarrow> bool" where
  "looksLikeTableRow line \<longleftrightarrow>
     re_test (seqs [Many 1 None WordC, Many 2 None Space, Many 1 None WordC]) line
     \<or> includes_str line [TAB]"

text \<open>
  \<^verbatim>\<open>processTable(lines, startIndex)\<close>: the markdown of the table (null when fewer than two
  rows were collected) and the index of the last line taken.
\<close>

definition tableRow :: "string \<Rightarrow> string" where
  "tableRow line =
     ''| '' @ join '' | ''
        (map trim (re_split (Alt (Many 2 None Space) (Many 1 None (OneOf [TAB]))) line)) @ '' |''"

definition processTable :: "string list \<Rightarrow> nat \<Rightarrow> string option \<times> nat" where
  "processTable lines startIndex =
     (let tableLines = map trim (takeWhile (\<lambda>l. looksLikeTableRow (trim l)) (drop startIndex lines));
          i = startIndex + length tableLines
      in if length tableLines < 2 then (None, startIndex)
         else (let rows = map tableRow tableLines;
                   headerSeparator =
                     ''|'' @ repeat '' --- |'' (length (split_on CHR ''|'' (hd rows)) - 2);
                   rows' = hd rows # headerSeparator # tl rows
               in (Some ([LF] @ join [LF] rows' @ [LF]), i - 1)))"

definition codeKeywords :: "string list" where
  "codeKeywords = [''function'', ''var'', ''let'', ''const'', ''if'', ''else'', ''for'', ''while'',
     ''return'', ''import'', ''export'', ''class'', ''def'', ''public'', ''private'']"

definition looksLikeCode :: "string \<Rightarrow> bool" where
  "looksLikeCode line \<longleftrightarrow>
     (if length line = 0 then False
      else if list_ex (\<lambda>keyword. includes_str line keyword) codeKeywords then True
      else if re_test (Cls (OneOf ''{}();=<>'')) line then True
      else if re_test (Seq Bol (Many 4 None Space)) line \<and> re_test (Cls WordC) line then True
      else False)"

text \<open>
  \<^verbatim>\<open>processInlineFormatting\<close>: bold for words in capitals
  (\<^verbatim>\<open>/\b([A-Z]{2,})\b(?!\s*[.!?])/g\<close>), links for URLs (\<^verbatim>\<open>/(https?:\/\/[^\s]+)/g\<close>) and for
  e-mail addresses
  (\<^verbatim>\<open>/\b([a-zA-Z0-9._%+-]+@[a-zA-Z0-9.-]+\.[a-zA-Z]{2,})\b/g\<close>).
\<close>

definition alnum :: cls where
  "alnum = Or (Between CHR ''a'' CHR ''z'') (Or upperAZ Digit)"

definition boldRe :: regex where
  "boldRe = seqs [WordB, Grp 1 (Many 2 None upperAZ), WordB,
                  NotAhead (Seq (Many 0 None Space) (Cls (OneOf ''.!?'')))]"

definition urlRe :: regex where
  "urlRe = Grp 1 (seqs [Lit ''http'', Many 0 (Some 1) (OneOf ''s''), Lit ''://'',
                        Many 1 None (Neg Space)])"

definition emailRe :: regex where
  "emailRe = seqs [WordB,
     Grp 1 (seqs [Many 1 None (Or alnum (OneOf ''._%+-'')), Cls (OneOf ''@''),
                  Many 1 None (Or alnum (OneOf ''.-'')), Cls (OneOf ''.''),
                  Many 2 None (Or (Between CHR ''a'' CHR ''z'') upperAZ)]),
     WordB]"

definition processInlineFormatting :: "string \<Rightarrow> string" where
  "processInlineFormatting line =
     (let processed = line;
          processed = replace_all boldRe (\<lambda>m c. ''**'' @ grp_text c 1 @ ''**'') processed;
          processed = replace_all urlRe
                        (\<lambda>m c. ''['' @ grp_text c 1 @ '']('' @ grp_text c 1 @ '')'') processed;
          processed = replace_all emailRe
                        (\<lambda>m c. ''['' @ grp_text c 1 @ ''](mailto:'' @ grp_text c 1 @ '')'') processed
      in processed)"

text \<open>
  \<^verbatim>\<open>generateAnchor\<close>: lower case, then \<^verbatim>\<open>/[^\w\s-]/g\<close> removed, \<^verbatim>\<open>/\s+/g\<close> and
  \<^verbatim>\<open>/-+/g\<close> replaced by one hyphen, \<^verbatim>\<open>/^-|-$/g\<close> removed.
\<close>

definition generateAnchor :: "string \<Rightarrow> string" where
  "generateAnchor t =
     (let a = toLowerCase t;
          a = replace_all (Cls (Neg (Or WordC (Or Space (OneOf ''-''))))) (\<lambda>m c. []) a;
          a = replace_all (Many 1 None Space) (\<lambda>m c. ''-'') a;
          a = replace_all (Many 1 None (OneOf ''-'')) (\<lambda>m c. ''-'') a;
          a = replace_all (Alt (Seq Bol (Lit ''-'')) (Seq (Lit ''-'') Eol)) (\<lambda>m c. []) a
      in a)"

text \<open>
  \<^verbatim>\<open>generateTableOfContents\<close>: the lines that match \<^verbatim>\<open>/^(#{1,6})\s+(.+)$/\<close>, one entry
  each, or null when there is none.
\<close>

definition tocHeadingRe :: regex where
  "tocHeadingRe = seqs [Bol, Grp 1 (Many 1 (Some 6) (OneOf ''#'')), Many 1 None Space,
                        Grp 2 (Many 1 None Dot), Eol]"

definition tocHeadings :: "string list \<Rightarrow> (nat \<times> string \<times> string) list" where
  "tocHeadings lines =
     concat (map (\<lambda>line. case re_match tocHeadingRe line of
                             None \<Rightarrow> []
                           | Some (m0, headingMatch) \<Rightarrow>
                               [(length (grp_text headingMatch 1), grp_text headingMatch 2,
                                 generateAnchor (grp_text headingMatch 2))]) lines)"

definition generateTableOfContents :: "string \<Rightarrow> string option" where
  "generateTableOfContents content =
     (let headings = tocHeadings (split_on LF content)
      in if length headings = 0 then None
         else Some (join [LF]
                (map (\<lambda>(lv, t, anchor).
                        repeat ''  '' (lv - 1) @ ''- ['' @ t @ ''](#'' @ anchor @ '')'') headings)))"

text \<open>
  \<^verbatim>\<open>finalCleanup\<close>, in the order of the source:
  \<^verbatim>\<open>/\n{4,}/g\<close> becomes three line feeds; \<^verbatim>\<open>/\n(#{1,6}\s+)/g\<close> gets a second line feed in
  front; \<^verbatim>\<open>/(#{1,6}\s+.+)\n(?!\n)/g\<close> gets a second line feed behind;
  \<^verbatim>\<open>/\n([\-\*]\s+)/g\<close> is replaced by itself; every line is trimmed at its end; the
  document is trimmed at its end and one line feed is appended.
\<close>

definition hashes :: regex where
  "hashes = Seq (Many 1 (Some 6) (OneOf ''#'')) (Many 1 None Space)"

definition finalCleanup :: "string \<Rightarrow> string" where
  "finalCleanup md =
     (let cleaned = md;
          cleaned = replace_all (Many 4 None (OneOf [LF])) (\<lambda>m c. [LF, LF, LF]) cleaned;
          cleaned = replace_all (Seq (Lit [LF]) (Grp 1 hashes))
                      (\<lambda>m c. [LF, LF] @ grp_text c 1) cleaned;
          cleaned = replace_all (seqs [Grp 1 (Seq hashes (Many 1 None Dot)), Lit [LF],
                                        NotAhead (Lit [LF])])
                      (\<lambda>m c. grp_text c 1 @ [LF, LF]) cleaned;
          cleaned = replace_all (Seq (Lit [LF]) (Grp 1 (Seq (Cls (OneOf ''-*'')) (Many 1 None Space))))
                      (\<lambda>m c. [LF] @ grp_text c 1) cleaned;
          cleaned = join [LF] (map trimEnd (split_on LF cleaned));
          cleaned = trimEnd cleaned @ [LF]
      in cleaned)"

text \<open>
  \<^verbatim>\<open>generateMetadata\<close> reads the clock: \<open>now\<close> is what \<^verbatim>\<open>new Date().toISOString()\<close>
  answers at the time of the call.
\<close>

definition generateMetadata :: "string \<Rightarrow> string \<Rightarrow> string" where
  "generateMetadata now sourceURL =
     join [LF]
       [ ''---'',
         ''title: '' @ [DQ] @ ''PDF Processed Document'' @ [DQ],
         ''source: '' @ [DQ] @ sourceURL @ [DQ],
         ''processed_date: '' @ [DQ] @ now @ [DQ],
         ''generator: '' @ [DQ] @ ''PDF Processor v1.0.0'' @ [DQ],
         ''---'',
         [] ] @ [LF]"

record pc_state =
  processedLines :: "string list"
  inCodeBlock :: bool
  listLevel :: nat
  currentHeadingLevel :: nat

text \<open>
  \<^verbatim>\<open>processContent\<close>: the loop over the lines, \<open>i\<close> its index. (The options it is given
  are not read.)
\<close>

function processContent_loop :: "string list \<Rightarrow> nat \<Rightarrow> pc_state \<Rightarrow> error + pc_state" where
  "processContent_loop lines i st =
     (if i < length lines then
        (let line = lines ! i; trimmedLine = trim line
         in if trimmedLine = [] then
              processContent_loop lines (Suc i)
                (st\<lparr> processedLines := processedLines st @ [[]], listLevel := 0 \<rparr>)
            else
              (case detectHeading trimmedLine of
                 Inl e \<Rightarrow> Inl e
               | Inr (Some h) \<Rightarrow>
                   (let pl = processedLines st;
                        pl = (if length pl > 0 \<and> last pl \<noteq> [] then pl @ [[]] else pl)
                    in processContent_loop lines (Suc i)
                         (st\<lparr> processedLines := pl @ [markdown h],
                               currentHeadingLevel := level h, listLevel := 0 \<rparr>))
               | Inr None \<Rightarrow>
                   (case detectListItem trimmedLine of
                      Some listItem \<Rightarrow>
                        processContent_loop lines (Suc i)
                          (st\<lparr> processedLines := processedLines st @ [li_markdown listItem],
                                listLevel := li_level listItem \<rparr>)
                    | None \<Rightarrow>
                        (case (if looksLikeTableRow trimmedLine then fst (processTable lines i)
                               else None) of
                           Some tableMarkdown \<Rightarrow>
                             processContent_loop lines (Suc (snd (processTable lines i)))
                               (st\<lparr> processedLines := processedLines st @ [tableMarkdown] \<rparr>)
                         | None \<Rightarrow>
                             (if looksLikeCode trimmedLine then
                                processContent_loop lines (Suc i)
                                  (st\<lparr> processedLines :=
                                          (if \<not> inCodeBlock st then processedLines st @ [''```'']
                                           else processedLines st) @ [trimmedLine],
                                        inCodeBlock := True \<rparr>)
                              else
                                (let st' = (if inCodeBlock st
                                            then st\<lparr> processedLines := processedLines st @ [''```''],
                                                      inCodeBlock := False \<rparr>
                                            else st)
                                 in processContent_loop lines (Suc i)
                                      (st'\<lparr> processedLines := processedLines st'
                                                @ [processInlineFormatting trimmedLine],
                                             listLevel := 0 \<rparr>)))))))
      else Inr st)"
  by pat_completeness auto
termination
proof (relation "measure (\<lambda>(lines, i, st). length lines - i)")
  fix lines :: "string list" and i :: nat and st st' :: pc_state
  assume "i < length lines"
  moreover have "i \<le> snd (processTable lines i)"
    by (auto simp add: processTable_def Let_def)
  ultimately show "((lines, Suc (snd (processTable lines i)), st'), (lines, i, st))
      \<in> measure (\<lambda>(lines, i, st). length lines - i)"
    by simp
qed auto

declare processContent_loop.simps [simp del]

definition processContent :: "string \<Rightarrow> error + string" where
  "processContent t =
     (case processContent_loop (split_on LF t) 0
             \<lparr> processedLines = [], inCodeBlock = False, listLevel = 0, currentHeadingLevel = 0 \<rparr> of
        Inl e \<Rightarrow> Inl e
      | Inr st \<Rightarrow>
          Inr (join [LF] (if inCodeBlock st then processedLines st @ [''```'']
                          else processedLines st)))"

record gen_options =
  sourceURL :: string
  metadata :: bool
  preserveFormatting :: bool
  includeTableOfContents :: bool

definition placeholderText :: string where
  "placeholderText =
     ''No content could be processed from the PDF. Please check the processing logs for errors.''"

text \<open>
  \<^verbatim>\<open>generate(text, options)\<close>. The text is \<open>None\<close> when the caller hands over something
  that is not a string; \<open>now\<close> is the clock reading of \<^verbatim>\<open>generateMetadata\<close>.
\<close>

definition generate :: "string \<Rightarrow> string option \<Rightarrow> gen_options \<Rightarrow> error + string" where
  "generate now text_in options =
     (let t = (case text_in of None \<Rightarrow> placeholderText
               | Some s \<Rightarrow> if s = [] then placeholderText else s);
          md = (if metadata options then generateMetadata now (sourceURL options) else [])
      in case processContent t of
           Inl e \<Rightarrow> Inl e
         | Inr processedContent \<Rightarrow>
             (let md = (if includeTableOfContents options
                        then (case generateTableOfContents processedContent of
                                None \<Rightarrow> md
                              | Some toc \<Rightarrow>
                                  if toc = [] then md
                                  else md @ [LF] @ ''## Table of Contents'' @ [LF, LF] @ toc @ [LF, LF])
                        else md);
                  md = md @ processedContent
              in Inr (finalCleanup md)))"

section \<open>The text corrector\<close>

text \<open>Source: \<^verbatim>\<open>src/main/workers/pdf-processor.js\<close>, class \<^verbatim>\<open>TextCorrector\<close>.\<close>

text \<open>
  \<^verbatim>\<open>initializeOCRPatterns\<close>. The tables are object literals read with
  \<^verbatim>\<open>Object.entries\<close>, which lists the keys that are array indices first, in ascending
  order, and the others in the order in which they were written: in \<^verbatim>\<open>characterErrors\<close>
  the four digits come before the letter pairs.
\<close>

definition characterErrors :: "(string \<times> string) list" where
  "characterErrors =
     [(''0'', ''o''), (''1'', ''l''), (''5'', ''S''), (''8'', ''B''),
      (''rn'', ''m''), (''cl'', ''d''), (''ii'', ''ll''), (''vv'', ''w''), (''VV'', ''W''),
      (''nn'', ''n''), (''oo'', ''o'')]"

definition wordErrors :: "(string \<times> string) list" where
  "wordErrors =
     [(''tlie'', ''the''), (''liave'', ''have''), (''witli'', ''with''), (''tliis'', ''this''),
      (''tliat'', ''that''), (''wliich'', ''which''), (''wlien'', ''when''), (''wliere'', ''where''),
      (''liere'', ''here''), (''tliere'', ''there''), (''liis'', ''his''), (''lier'', ''her''),
      (''liim'', ''him''), (''otlier'', ''other''), (''anotlier'', ''another''),
      (''furtlier'', ''further'')]"

definition punctuationErrors :: "(string \<times> string) list" where
  "punctuationErrors =
     [('',,'', '',''), (''..'', ''.''), ('';;'', '';''), (''::'', '':''), (''??'', ''?''),
      (''!!'', ''!''), ('' ,'', '',''), ('' .'', ''.''), ('' ;'', '';''), ('' :'', '':''),
      ('' ?'', ''?''), ('' !'', ''!'')]"

text \<open>
  The three correction passes. Every key of the tables is matched as it is written (none
  holds a character that is special in a regular expression, and \<^verbatim>\<open>escapeRegExp\<close> guards
  the punctuation); the word pass adds \<^verbatim>\<open>\b\<close> on both sides and the flag \<^verbatim>\<open>i\<close>.
\<close>

definition fixCharacterErrors :: "string \<Rightarrow> string" where
  "fixCharacterErrors t =
     foldl (\<lambda>corrected (err, correction).
              replace_all (Lit err) (\<lambda>m c. correction) corrected) t characterErrors"

definition fixWordErrors :: "string \<Rightarrow> string" where
  "fixWordErrors t =
     foldl (\<lambda>corrected (err, correction).
              replace_all (seqs [WordB, LitCI err, WordB]) (\<lambda>m c. correction) corrected)
       t wordErrors"

definition fixPunctuationErrors :: "string \<Rightarrow> string" where
  "fixPunctuationErrors t =
     foldl (\<lambda>corrected (err, correction).
              replace_all (Lit err) (\<lambda>m c. correction) corrected) t punctuationErrors"

text \<open>
  \<^verbatim>\<open>looksLikeHeading\<close>, with \<^verbatim>\<open>/^[A-Z]\d*[\.\)]\s/\<close>, \<^verbatim>\<open>/^\d+[\.\)]\s/\<close> and
  \<^verbatim>\<open>/^[IVX]+[\.\)]\s/\<close>.
\<close>

definition looksLikeHeading :: "string \<Rightarrow> bool" where
  "looksLikeHeading line \<longleftrightarrow>
     (if length line < 3 then False
      else if length line > 100 then False
      else if line = toUpperCase line \<and> length line < 50 then True
      else if re_test (seqs [Bol, Cls upperAZ, Many 0 None Digit, Cls dotParen, Cls Space]) line
        then True
      else if re_test (seqs [Bol, Many 1 None Digit, Cls dotParen, Cls Space]) line then True
      else if re_test (seqs [Bol, Many 1 None (OneOf ''IVX''), Cls dotParen, Cls Space]) line
        then True
      else False)"

text \<open>
  \<^verbatim>\<open>shouldMergeWithPrevious\<close>, with \<^verbatim>\<open>/^\s*[\u2022\u2023\u25E6\u2043\u2219\-\*]\s/\<close> (of which the hyphen and the
  asterisk are ASCII), \<^verbatim>\<open>/^\s*\d+[\.\)]\s/\<close>, \<^verbatim>\<open>/^[A-Z]/\<close> and \<^verbatim>\<open>/[.!?]$/\<close>.
\<close>

definition startsWithCapital :: "string \<Rightarrow> bool" where
  "startsWithCapital line = re_test (Seq Bol (Cls upperAZ)) line"

definition shouldMergeWithPrevious :: "string \<Rightarrow> string list \<Rightarrow> bool" where
  "shouldMergeWithPrevious line currentParagraph \<longleftrightarrow>
     (if length currentParagraph = 0 then False
      else if looksLikeHeading line then False
      else if re_test (seqs [Bol, Many 0 None Space, Cls (OneOf ''-*''), Cls Space]) line
              \<or> re_test (seqs [Bol, Many 0 None Space, Many 1 None Digit, Cls dotParen, Cls Space]) line
        then False
      else (let lastLine = last currentParagraph
            in if endsWith lastLine ''.'' \<and> startsWithCapital line then False
               else if \<not> startsWithCapital line then True
               else if \<not> re_test (Seq (Cls (OneOf ''.!?'')) Eol) lastLine then True
               else False))"

text \<open>The page markers that are skipped: \<^verbatim>\<open>/^---\s*Page\s+\d+\s*---$/\<close>.\<close>

definition pageMarker :: regex where
  "pageMarker = seqs [Bol, Lit ''---'', Many 0 None Space, Lit ''Page'', Many 1 None Space,
                      Many 1 None Digit, Many 0 None Space, Lit ''---'', Eol]"

text \<open>
  \<^verbatim>\<open>restoreTextStructure\<close>: the body of the loop for one line, on the lines emitted so far
  and the paragraph being collected, then the loop and the last paragraph.
\<close>

definition flushParagraph :: "string list \<Rightarrow> string list" where
  "flushParagraph currentParagraph =
     (if length currentParagraph > 0 then [join '' '' currentParagraph] else [])"

definition restoreStep :: "string list \<times> string list \<Rightarrow> string \<Rightarrow> string list \<times> string list" where
  "restoreStep st raw =
     (case st of (emitted, currentParagraph) \<Rightarrow>
        (let line = trim raw
         in if re_test pageMarker line then (emitted, currentParagraph)
            else if line = [] then
              (emitted @ flushParagraph currentParagraph @ [[]], [])
            else if shouldMergeWithPrevious line currentParagraph then
              (emitted, currentParagraph @ [line])
            else (emitted @ flushParagraph currentParagraph, [line])))"

definition restoreTextStructure :: "string \<Rightarrow> string" where
  "restoreTextStructure t =
     (case foldl restoreStep ([], []) (split_on LF t) of
        (emitted, currentParagraph) \<Rightarrow>
          join [LF] (emitted @ flushParagraph currentParagraph))"

text \<open>
  The edit distance is the one of the library the corrector calls
  (\<^verbatim>\<open>natural.LevenshteinDistance\<close> with its default costs): insertions, deletions and
  substitutions cost one each, and there is no transposition. It is computed row by row.
\<close>

fun lev_row :: "char \<Rightarrow> string \<Rightarrow> nat list \<Rightarrow> nat \<Rightarrow> nat list" where
  "lev_row a (b # t) (d # e # prev) left =
     (let v = min (min (e + 1) (left + 1)) (d + (if a = b then 0 else 1))
      in v # lev_row a t (e # prev) v)"
| "lev_row a t prev left = []"

definition LevenshteinDistance :: "string \<Rightarrow> string \<Rightarrow> nat" where
  "LevenshteinDistance source target =
     last (foldl (\<lambda>row a. (hd row + 1) # lev_row a target row (hd row + 1))
                 [0 ..< Suc (length target)] source)"

text \<open>
  \<^verbatim>\<open>chooseBestSuggestion\<close>. The bound \<^verbatim>\<open>Math.floor(originalWord.length * 0.3)\<close> is
  \<open>3 * n div 10\<close>: the product is computed in binary floating point, and for the length
  of a string it never falls on the other side of a whole number.
\<close>

definition chooseBestSuggestion :: "string \<Rightarrow> string list \<Rightarrow> bool \<Rightarrow> string option" where
  "chooseBestSuggestion originalWord suggestions aggressiveMode =
     (if length suggestions = 0 then None
      else if \<not> aggressiveMode then
        (let bestSuggestion = hd suggestions;
             distance = LevenshteinDistance (toLowerCase originalWord) (toLowerCase bestSuggestion)
         in if distance \<le> max 1 (3 * length originalWord div 10) then Some bestSuggestion
            else None)
      else Some (hd suggestions))"

text \<open>
  The spell checker is either the dictionary library, of which the corrector uses the two
  methods \<^verbatim>\<open>correct\<close> (whether a word is spelled correctly) and \<^verbatim>\<open>suggest\<close>, or the
  fallback that \<^verbatim>\<open>initializeSpellChecker\<close> builds from \<^verbatim>\<open>isValidWord\<close> and
  \<^verbatim>\<open>getSuggestions\<close> when the library cannot be loaded; the \<^verbatim>\<open>correct\<close> of the fallback
  answers true for the words that are not valid.
\<close>

record dict_lib =
  correct :: "string \<Rightarrow> bool"
  suggest :: "string \<Rightarrow> string list"

datatype spell_checker = Library dict_lib | Fallback

definition commonWords :: "string list" where
  "commonWords =
     [''the'', ''be'', ''to'', ''of'', ''and'', ''a'', ''in'', ''that'', ''have'', ''i'',
      ''it'', ''for'', ''not'', ''on'', ''with'', ''he'', ''as'', ''you'', ''do'', ''at'',
      ''this'', ''but'', ''his'', ''by'', ''from'', ''they'', ''she'', ''or'', ''an'', ''will'',
      ''my'', ''one'', ''all'', ''would'', ''there'', ''their'', ''what'', ''so'', ''up'', ''out'',
      ''if'', ''about'', ''who'', ''get'', ''which'', ''go'', ''me'', ''when'', ''make'', ''can'',
      ''like'', ''time'', ''no'', ''just'', ''him'', ''know'', ''take'', ''people'', ''into'',
      ''year'', ''your'', ''good'', ''some'', ''could'', ''them'', ''see'', ''other'', ''than'',
      ''then'', ''now'', ''look'', ''only'', ''come'', ''its'', ''over'', ''think'', ''also'',
      ''back'', ''after'', ''use'', ''two'', ''how'', ''our'', ''work'', ''first'', ''well'',
      ''way'', ''even'', ''new'', ''want'', ''because'', ''any'', ''these'', ''give'', ''day'',
      ''most'', ''us'']"

definition isValidWord :: "string set \<Rightarrow> string \<Rightarrow> bool" where
  "isValidWord customDictionary word \<longleftrightarrow>
     (if toLowerCase word \<in> customDictionary then True
      else toLowerCase word \<in> set commonWords)"

definition getSuggestions :: "string \<Rightarrow> string list" where
  "getSuggestions word =
     take 5 (filter (\<lambda>candidate. LevenshteinDistance (toLowerCase word) candidate \<le> 2)
               [''the'', ''and'', ''that'', ''have'', ''for'', ''not'', ''with'', ''you'', ''this'',
                ''but''])"

definition checker_correct :: "spell_checker \<Rightarrow> string set \<Rightarrow> string \<Rightarrow> bool" where
  "checker_correct sc customDictionary word =
     (case sc of Library orc \<Rightarrow> correct orc word
      | Fallback \<Rightarrow> \<not> isValidWord customDictionary word)"

definition checker_suggest :: "spell_checker \<Rightarrow> string \<Rightarrow> string list" where
  "checker_suggest sc word =
     (case sc of Library orc \<Rightarrow> suggest orc word | Fallback \<Rightarrow> getSuggestions word)"

text \<open>
  \<^verbatim>\<open>word.replace(cleanWord, bestSuggestion)\<close> with a string as its pattern: the first
  occurrence is replaced, and in the replacement \<^verbatim>\<open>$$\<close> stands for a dollar sign,
  \<^verbatim>\<open>$&\<close> for the matched text, \<^verbatim>\<open>$`\<close> for what precedes it and \<^verbatim>\<open>$'\<close> for what
  follows it.
\<close>

fun substitution :: "string \<Rightarrow> string \<Rightarrow> string \<Rightarrow> string \<Rightarrow> string" where
  "substitution pre matched post [] = []"
| "substitution pre matched post [x] = [x]"
| "substitution pre matched post (x # y # r) =
     (if x = CHR ''$'' then
        (if y = CHR ''$'' then CHR ''$'' # substitution pre matched post r
         else if y = CHR ''&'' then matched @ substitution pre matched post r
         else if y = CHR 0x60 then pre @ substitution pre matched post r
         else if y = CHR 0x27 then post @ substitution pre matched post r
         else x # substitution pre matched post (y # r))
      else x # substitution pre matched post (y # r))"

fun replace_first_from :: "string \<Rightarrow> string \<Rightarrow> string \<Rightarrow> string \<Rightarrow> string" where
  "replace_first_from pre [] pat repl =
     (if pat = [] then substitution pre [] [] repl else [])"
| "replace_first_from pre (x # xs) pat repl =
     (if starts_with (x # xs) pat
      then substitution pre pat (drop (length pat) (x # xs)) repl @ drop (length pat) (x # xs)
      else x # replace_first_from (pre @ [x]) xs pat repl)"

definition replace_first :: "string \<Rightarrow> string \<Rightarrow> string \<Rightarrow> string" where
  "replace_first s pat repl = replace_first_from [] s pat repl"

text \<open>
  \<^verbatim>\<open>performSpellCheck\<close>: one word of the loop, then the method. The key
  \<^verbatim>\<open>cleanWord\<close> is the word without the characters that \<^verbatim>\<open>/[^\w]/g\<close> matches. The source
  calls a word misspelled when the method \<^verbatim>\<open>correct\<close> of the checker answers true.
\<close>

definition cleanWordOf :: "string \<Rightarrow> string" where
  "cleanWordOf word = replace_all (Cls (Neg WordC)) (\<lambda>m c. []) word"

definition spellCheckWord :: "spell_checker \<Rightarrow> string set \<Rightarrow> bool \<Rightarrow> string \<Rightarrow> string" where
  "spellCheckWord sc customDictionary aggressiveMode word =
     (let cleanWord = cleanWordOf word
      in if length cleanWord < 2 then word
         else if toLowerCase cleanWord \<in> customDictionary then word
         else if checker_correct sc customDictionary cleanWord then
           (let suggestions = checker_suggest sc cleanWord
            in if length suggestions > 0 then
                 (case chooseBestSuggestion cleanWord suggestions aggressiveMode of
                    Some bestSuggestion \<Rightarrow>
                      if bestSuggestion \<noteq> [] then replace_first word cleanWord bestSuggestion
                      else word
                  | None \<Rightarrow> word)
               else word)
         else word)"

definition performSpellCheck ::
  "spell_checker option \<Rightarrow> string set \<Rightarrow> string \<Rightarrow> bool \<Rightarrow> string" where
  "performSpellCheck spellChecker customDictionary t aggressiveMode =
     (case spellChecker of
        None \<Rightarrow> t
      | Some sc \<Rightarrow>
          join '' '' (map (spellCheckWord sc customDictionary aggressiveMode)
                        (re_split (Many 1 None Space) t)))"

text \<open>
  \<^verbatim>\<open>improveTextFlow\<close>. The text first goes through the language library
  (\<^verbatim>\<open>compromise(text).text()\<close>): \<open>docText\<close> is what that answers, \<open>None\<close> when it
  throws, in which case the method returns its argument. Then come
  \<^verbatim>\<open>/\s{2,}/g\<close>, \<^verbatim>\<open>/\s+([,.;:!?])/g\<close>, \<^verbatim>\<open>/([.!?])\s*([a-z])/g\<close> and
  \<^verbatim>\<open>/([.!?]\s+)([a-z])/g\<close>.
\<close>

definition lowerAZ :: cls where
  "lowerAZ = Between CHR ''a'' CHR ''z''"

definition flowSpaces :: "string \<Rightarrow> string" where
  "flowSpaces t = replace_all (Many 2 None Space) (\<lambda>m c. '' '') t"

definition flowBeforePunct :: "string \<Rightarrow> string" where
  "flowBeforePunct t =
     replace_all (Seq (Many 1 None Space) (Grp 1 (Cls (OneOf '',.;:!?'')))) (\<lambda>m c. grp_text c 1) t"

definition flowAfterPunct :: "string \<Rightarrow> string" where
  "flowAfterPunct t =
     replace_all (seqs [Grp 1 (Cls (OneOf ''.!?'')), Many 0 None Space, Grp 2 (Cls lowerAZ)])
       (\<lambda>m c. grp_text c 1 @ '' '' @ grp_text c 2) t"

definition flowCapitals :: "string \<Rightarrow> string" where
  "flowCapitals t =
     replace_all (Seq (Grp 1 (Seq (Cls (OneOf ''.!?'')) (Many 1 None Space))) (Grp 2 (Cls lowerAZ)))
       (\<lambda>m c. grp_text c 1 @ toUpperCase (grp_text c 2)) t"

definition improveTextFlow :: "(string \<Rightarrow> string option) \<Rightarrow> string \<Rightarrow> string" where
  "improveTextFlow docText t =
     (case docText t of
        None \<Rightarrow> t
      | Some improved \<Rightarrow> flowCapitals (flowAfterPunct (flowBeforePunct (flowSpaces improved))))"

text \<open>
  \<^verbatim>\<open>TextCorrector.finalCleanup\<close>: \<^verbatim>\<open>/\n{3,}/g\<close> becomes two line feeds, every line is
  trimmed, the text is trimmed.
\<close>

definition textFinalCleanup :: "string \<Rightarrow> string" where
  "textFinalCleanup t =
     (let cleaned = replace_all (Many 3 None (OneOf [LF])) (\<lambda>m c. [LF, LF]) t;
          cleaned = join [LF] (map trim (split_on LF cleaned))
      in trim cleaned)"

text \<open>\<^verbatim>\<open>loadCustomDictionary\<close>, for the two forms of the setting.\<close>

datatype dict_setting = NoWords | WordList "string list" | WordLines string

definition loadCustomDictionary :: "string set \<Rightarrow> dict_setting \<Rightarrow> string set" where
  "loadCustomDictionary customDictionary customWords =
     (case customWords of
        NoWords \<Rightarrow> customDictionary
      | WordList ws \<Rightarrow> customDictionary \<union> set (map toLowerCase ws)
      | WordLines s \<Rightarrow>
          customDictionary \<union>
            set (map toLowerCase (filter (\<lambda>w. w \<noteq> []) (map trim (split_on LF s)))))"

section \<open>Page results and the pipeline\<close>

text \<open>
  Source: class \<^verbatim>\<open>OCRWorker\<close>, method \<^verbatim>\<open>combinePageResults\<close>. A page result carries its
  number, its text, its confidence (a number, modelled as a real; the comparison with 70 is
  exact on either) and, when the page was recognised, its words. A field that is absent
  is \<open>None\<close>.
\<close>

record page_result =
  page :: nat
  ptext :: "string option"
  confidence :: "real option"
  pwords :: "string list option"

record low_page =
  lp_page :: nat
  lp_confidence :: "real option"

record ocr_metadata =
  averageConfidence :: real
  lowConfidencePages :: "low_page list"
  processingTime :: nat

record structured_text =
  pages :: "page_result list"
  fullText :: string
  totalConfidence :: real
  pageCount :: nat
  wordCount :: nat
  ocrMetadata :: ocr_metadata

text \<open>\<^verbatim>\<open>page.text && page.text.trim()\<close>, as a condition.\<close>

definition hasText :: "page_result \<Rightarrow> bool" where
  "hasText p = (case ptext p of None \<Rightarrow> False | Some s \<Rightarrow> s \<noteq> [] \<and> trim s \<noteq> [])"

text \<open>\<^verbatim>\<open>page.confidence || 0\<close>.\<close>

definition confidenceOrZero :: "page_result \<Rightarrow> real" where
  "confidenceOrZero p = (case confidence p of None \<Rightarrow> 0 | Some c \<Rightarrow> c)"

record combine_acc =
  acc_totalConfidence :: real
  acc_totalWords :: nat
  acc_fullTextParts :: "string list"
  acc_lowConfidencePages :: "low_page list"

definition combineStep :: "combine_acc \<Rightarrow> page_result \<Rightarrow> combine_acc" where
  "combineStep acc p =
     (if hasText p then
        acc\<lparr> acc_fullTextParts :=
               (if length (acc_fullTextParts acc) > 0 then acc_fullTextParts acc @ [[LF, LF]]
                else acc_fullTextParts acc) @ [trim (the (ptext p))],
             acc_totalConfidence := acc_totalConfidence acc + confidenceOrZero p,
             acc_totalWords := acc_totalWords acc +
               (case pwords p of Some ws \<Rightarrow> length ws
                | None \<Rightarrow> length (re_split (Many 1 None Space) (the (ptext p)))),
             acc_lowConfidencePages :=
               (if confidenceOrZero p < 70
                then acc_lowConfidencePages acc @ [\<lparr> lp_page = page p, lp_confidence = confidence p \<rparr>]
                else acc_lowConfidencePages acc) \<rparr>
      else acc)"

text \<open>\<open>now\<close> is the reading of \<^verbatim>\<open>Date.now()\<close>.\<close>

definition combinePageResults :: "nat \<Rightarrow> page_result list \<Rightarrow> structured_text" where
  "combinePageResults now results =
     (let acc = foldl combineStep
                  \<lparr> acc_totalConfidence = 0, acc_totalWords = 0, acc_fullTextParts = [],
                    acc_lowConfidencePages = [] \<rparr> results
      in \<lparr> pages = results,
           fullText = concat (acc_fullTextParts acc),
           totalConfidence = acc_totalConfidence acc,
           pageCount = length results,
           wordCount = acc_totalWords acc,
           ocrMetadata =
             \<lparr> averageConfidence =
                 (if length results > 0 then acc_totalConfidence acc / real (length results) else 0),
               lowConfidencePages = acc_lowConfidencePages acc,
               processingTime = now \<rparr> \<rparr>)"

text \<open>
  What \<^verbatim>\<open>processText\<close> may be given: a string, the combined page results, some other
  object (of which the fields \<^verbatim>\<open>text\<close> and \<^verbatim>\<open>content\<close> are read), or nothing.
\<close>

datatype ocr_input =
    OcrString string
  | OcrStructured structured_text
  | OcrObject "string option" "string option"
  | OcrNull

definition extractText :: "ocr_input \<Rightarrow> string" where
  "extractText ocrResults =
     (case ocrResults of
        OcrString s \<Rightarrow> s
      | OcrStructured st \<Rightarrow>
          if fullText st \<noteq> [] then fullText st
          else join [LF, LF]
                 (filter (\<lambda>pageText. trim pageText \<noteq> [])
                    (map (\<lambda>p. case ptext p of None \<Rightarrow> [] | Some s \<Rightarrow> s) (pages st)))
      | OcrObject t c \<Rightarrow> (case js_or (js_or t c) (Some []) of None \<Rightarrow> [] | Some s \<Rightarrow> s)
      | OcrNull \<Rightarrow> [])"

definition noTextMessage :: string where
  "noTextMessage =
     ''No text could be extracted from this PDF. This may be due to:'' @ [LF]
     @ ''- Unsupported PDF format'' @ [LF]
     @ ''- Image-based PDF requiring better OCR'' @ [LF]
     @ ''- Processing error'' @ [LF, LF]
     @ ''Please try with a different PDF or check the console for detailed error messages.''"

record corrector =
  spellChecker :: "spell_checker option"
  customDictionary :: "string set"

record settings =
  ocrLanguage :: string
  confidenceThreshold :: nat
  preserveLayout :: bool
  enableSpellCheck :: bool
  aggressiveCorrection :: bool
  customWords :: dict_setting
  outputFormat :: string
  includeMetadata :: bool

definition wordsGiven :: "dict_setting \<Rightarrow> bool" where
  "wordsGiven d = (case d of NoWords \<Rightarrow> False | WordList ws \<Rightarrow> True | WordLines s \<Rightarrow> s \<noteq> [])"

text \<open>
  \<^verbatim>\<open>processText\<close>, on the state of the corrector. \<open>installed\<close> is the checker that
  \<^verbatim>\<open>initializeSpellChecker\<close> installs (the library, or the fallback when loading fails);
  \<open>docText\<close> is the language library of \<^verbatim>\<open>improveTextFlow\<close>. The result is the text
  and the new state.
\<close>

definition processText ::
  "spell_checker \<Rightarrow> (string \<Rightarrow> string option) \<Rightarrow> corrector \<Rightarrow> ocr_input \<Rightarrow> settings
   \<Rightarrow> string \<times> corrector" where
  "processText installed docText this ocrResults stg =
     (let t = extractText ocrResults
      in if t = [] \<or> trim t = [] then (noTextMessage, this)
         else
           (let this = (if spellChecker this = None
                        then this\<lparr> spellChecker := Some installed \<rparr> else this);
                this = (if wordsGiven (customWords stg)
                        then this\<lparr> customDictionary :=
                                     loadCustomDictionary (customDictionary this) (customWords stg) \<rparr>
                        else this);
                correctedText = t;
                correctedText = fixCharacterErrors correctedText;
                correctedText = fixWordErrors correctedText;
                correctedText = fixPunctuationErrors correctedText;
                correctedText = restoreTextStructure correctedText;
                correctedText =
                  (if enableSpellCheck stg
                   then performSpellCheck (spellChecker this) (customDictionary this) correctedText
                          (aggressiveCorrection stg)
                   else correctedText);
                correctedText = improveTextFlow docText correctedText;
                correctedText = textFinalCleanup correctedText
            in (correctedText, this)))"

text \<open>
  The part of \<^verbatim>\<open>PDFProcessor.processURL\<close> between the page results and the markdown: the
  results are combined, a new corrector processes them, and the generator is called with
  the source and the setting \<^verbatim>\<open>includeMetadata\<close>, the other options at their defaults.
  \<open>clock\<close> is the reading of \<^verbatim>\<open>Date.now()\<close>, \<open>now\<close> the date of the metadata.
\<close>

definition defaultSettings :: settings where
  "defaultSettings =
     \<lparr> ocrLanguage = ''eng'', confidenceThreshold = 60, preserveLayout = True,
       enableSpellCheck = True, aggressiveCorrection = False, customWords = WordLines [],
       outputFormat = ''markdown'', includeMetadata = True \<rparr>"

definition processURL_markdown ::
  "nat \<Rightarrow> string \<Rightarrow> spell_checker \<Rightarrow> (string \<Rightarrow> string option) \<Rightarrow> page_result list \<Rightarrow> settings
   \<Rightarrow> string \<Rightarrow> error + string" where
  "processURL_markdown clock now installed docText results stg url =
     (let ocrResults = combinePageResults clock results;
          correctedText = fst (processText installed docText
                                 \<lparr> spellChecker = None, customDictionary = {} \<rparr>
                                 (OcrStructured ocrResults) stg)
      in generate now (Some correctedText)
           \<lparr> sourceURL = url, metadata = includeMetadata stg, preserveFormatting = True,
             includeTableOfContents = False \<rparr>)"

section \<open>The passes of the flow normalisation as scans\<close>

text \<open>
  Each of the four replacements of \<^verbatim>\<open>improveTextFlow\<close> is one scan of the text from left
  to right. The scans are written out here, and proved below to be what the replacements
  compute; the properties of the flow normalisation are then proved on the scans.
\<close>

definition first_is :: "(char \<Rightarrow> bool) \<Rightarrow> string \<Rightarrow> bool" where
  "first_is P r = (case r of [] \<Rightarrow> False | c # _ \<Rightarrow> P c)"

definition is_punct :: "char \<Rightarrow> bool" where
  "is_punct c \<longleftrightarrow> c \<in> set '',.;:!?''"

definition is_stop :: "char \<Rightarrow> bool" where
  "is_stop c \<longleftrightarrow> c \<in> set ''.!?''"

text \<open>A run of two or more white-space characters becomes one space.\<close>

function collapse_ws :: "string \<Rightarrow> string" where
  "collapse_ws [] = []"
| "collapse_ws (x # xs) =
     (if is_space x \<and> first_is is_space xs then CHR '' '' # collapse_ws (dropWhile is_space xs)
      else x # collapse_ws xs)"
  by pat_completeness auto
termination
  by (relation "measure length") (auto simp add: le_imp_less_Suc length_dropWhile_le)

text \<open>White space in front of a punctuation mark is removed.\<close>

function strip_ws_before_punct :: "string \<Rightarrow> string" where
  "strip_ws_before_punct [] = []"
| "strip_ws_before_punct (x # xs) =
     (if is_space x \<and> first_is is_punct (dropWhile is_space xs)
      then hd (dropWhile is_space xs) # strip_ws_before_punct (tl (dropWhile is_space xs))
      else x # strip_ws_before_punct xs)"
  by pat_completeness auto
termination
  by (relation "measure length")
     (auto simp add: le_imp_less_Suc length_dropWhile_le le_trans [OF diff_le_self])

text \<open>
  Between the end of a sentence and a small letter, whatever white space there is becomes
  one space.
\<close>

function space_after_stop :: "string \<Rightarrow> string" where
  "space_after_stop [] = []"
| "space_after_stop (x # xs) =
     (if is_stop x \<and> first_is is_lower (dropWhile is_space xs)
      then x # CHR '' '' # hd (dropWhile is_space xs)
             # space_after_stop (tl (dropWhile is_space xs))
      else x # space_after_stop xs)"
  by pat_completeness auto
termination
  by (relation "measure length")
     (auto simp add: le_imp_less_Suc length_dropWhile_le le_trans [OF diff_le_self])

text \<open>A small letter after the end of a sentence and white space becomes a capital.\<close>

function capital_after_stop :: "string \<Rightarrow> string" where
  "capital_after_stop [] = []"
| "capital_after_stop (x # xs) =
     (if is_stop x \<and> first_is is_space xs \<and> first_is is_lower (dropWhile is_space xs)
      then x # takeWhile is_space xs @ upper_char (hd (dropWhile is_space xs))
             # capital_after_stop (tl (dropWhile is_space xs))
      else x # capital_after_stop xs)"
  by pat_completeness auto
termination
  by (relation "measure length")
     (auto simp add: le_imp_less_Suc length_dropWhile_le le_trans [OF diff_le_self])

text \<open>
  What a text looks like after the passes: no two white-space characters in a row, no
  white space in front of a punctuation mark, no small letter after the end of a sentence
  (with or without white space between them); and, between the third pass and the fourth,
  exactly one space wherever a small letter follows the end of a sentence.
\<close>

fun no_double_ws :: "string \<Rightarrow> bool" where
  "no_double_ws [] = True"
| "no_double_ws (x # xs) = (\<not> (is_space x \<and> first_is is_space xs) \<and> no_double_ws xs)"

fun no_ws_before_punct :: "string \<Rightarrow> bool" where
  "no_ws_before_punct [] = True"
| "no_ws_before_punct (x # xs) =
     (\<not> (is_space x \<and> first_is is_punct xs) \<and> no_ws_before_punct xs)"

fun no_lower_after_stop :: "string \<Rightarrow> bool" where
  "no_lower_after_stop [] = True"
| "no_lower_after_stop (x # xs) =
     (\<not> (is_stop x \<and> first_is is_lower (dropWhile is_space xs)) \<and> no_lower_after_stop xs)"

fun one_space_after_stop :: "string \<Rightarrow> bool" where
  "one_space_after_stop [] = True"
| "one_space_after_stop (x # xs) =
     ((is_stop x \<and> first_is is_lower (dropWhile is_space xs) \<longrightarrow> takeWhile is_space xs = '' '')
      \<and> one_space_after_stop xs)"

text \<open>The four passes of \<^verbatim>\<open>improveTextFlow\<close>, one after the other.\<close>

definition flowPasses :: "string \<Rightarrow> string" where
  "flowPasses t = flowCapitals (flowAfterPunct (flowBeforePunct (flowSpaces t)))"

text \<open>The split of \<^verbatim>\<open>performSpellCheck\<close>, at every run of white space, as a scan.\<close>

function split_ws :: "string \<Rightarrow> string \<Rightarrow> string list" where
  "split_ws [] cur = [cur]"
| "split_ws (x # xs) cur =
     (if is_space x then cur # split_ws (dropWhile is_space xs) [] else split_ws xs (cur @ [x]))"
  by pat_completeness auto
termination
  by (relation "measure (\<lambda>(r, cur). length r)") (auto simp add: le_imp_less_Suc length_dropWhile_le)

section \<open>Properties\<close>

subsection \<open>Heading precedence\<close>




subsection \<open>Exceptions\<close>

lemma processText_extract:
  "extractText a = extractText b \<Longrightarrow>
     processText installed docText this a stg = processText installed docText this b stg"
  by (simp add: processText_def)

text \<open>
  Claim C1 says that no stage throws. The generator does: on the one-line text
  HELLO WORLD the all-capitals pattern matches, \<^verbatim>\<open>determineHeadingLevel\<close> reads a variable
  that does not exist, and the ReferenceError leaves \<^verbatim>\<open>generate\<close>, whatever the options
  and the clock; the same text as the only page of a document takes the pipeline, at its
  default settings, to the same exception.
\<close>

theorem C1_all_caps_line_throws:
  "generate now (Some ''HELLO WORLD'') opts = Inl ReferenceError
   \<and> processURL_markdown clock now Fallback Some
         [\<lparr> page = 1, ptext = Some ''HELLO WORLD'', confidence = Some 95, pwords = None \<rparr>]
         defaultSettings url = Inl ReferenceError"
proof -
  have pc: "processContent ''HELLO WORLD'' = Inl ReferenceError"
    by code_simp
  have g: "generate n (Some ''HELLO WORLD'') opts = Inl ReferenceError" for n opts
    by (simp add: generate_def Let_def pc)
  have ex: "extractText (OcrStructured (combinePageResults clock
              [\<lparr> page = 1, ptext = Some ''HELLO WORLD'', confidence = Some 95, pwords = None \<rparr>]))
            = ''HELLO WORLD''"
    by (simp add: extractText_def combinePageResults_def combineStep_def hasText_def trim_def
          trimEnd_def trimStart_def is_space_def)
  have es: "extractText (OcrString ''HELLO WORLD'') = ''HELLO WORLD''"
    by (simp add: extractText_def)
  have pt: "fst (processText Fallback Some \<lparr> spellChecker = None, customDictionary = {} \<rparr>
                   (OcrString ''HELLO WORLD'') defaultSettings) = ''HELLO WORLD''"
    by code_simp
  have "extractText (OcrStructured (combinePageResults clock
              [\<lparr> page = 1, ptext = Some ''HELLO WORLD'', confidence = Some 95, pwords = None \<rparr>]))
            = extractText (OcrString ''HELLO WORLD'')"
    by (simp only: ex es)
  then have "processText Fallback Some \<lparr> spellChecker = None, customDictionary = {} \<rparr>
               (OcrStructured (combinePageResults clock
                  [\<lparr> page = 1, ptext = Some ''HELLO WORLD'', confidence = Some 95, pwords = None \<rparr>]))
               defaultSettings
             = processText Fallback Some \<lparr> spellChecker = None, customDictionary = {} \<rparr>
                 (OcrString ''HELLO WORLD'') defaultSettings"
    by (rule processText_extract)
  then have "processURL_markdown clock now Fallback Some
         [\<lparr> page = 1, ptext = Some ''HELLO WORLD'', confidence = Some 95, pwords = None \<rparr>]
         defaultSettings url = Inl ReferenceError"
    unfolding processURL_markdown_def Let_def by (simp only: pt g)
  with g show ?thesis
    by (intro conjI)
qed

text \<open>
  Where there is no text, nothing is thrown: the corrector returns its fixed message, and
  the generator renders that message, or its own placeholder when it is handed no text.
\<close>

lemma no_text_is_a_placeholder:
  assumes "trim (extractText ocrResults) = []"
  shows "fst (processText installed docText this ocrResults stg) = noTextMessage"
  using assms by (simp add: processText_def)

lemma placeholders_are_rendered:
  "\<exists>md. generate now (Some noTextMessage) opts = Inr md"
  "\<exists>md. generate now None opts = Inr md \<and> generate now (Some []) opts = Inr md"
proof -
  have "\<not> isl (processContent noTextMessage)"
    by code_simp
  then obtain pc where pc: "processContent noTextMessage = Inr pc"
    by (cases "processContent noTextMessage") simp_all
  have n: "noTextMessage \<noteq> []"
    by code_simp
  show "\<exists>md. generate now (Some noTextMessage) opts = Inr md"
    by (simp add: generate_def Let_def pc n)
  have "\<not> isl (processContent placeholderText)"
    by code_simp
  then obtain pc' where pc': "processContent placeholderText = Inr pc'"
    by (cases "processContent placeholderText") simp_all
  show "\<exists>md. generate now None opts = Inr md \<and> generate now (Some []) opts = Inr md"
    by (simp add: generate_def Let_def pc')
qed

subsection \<open>The end-to-end scenario\<close>

text \<open>
  Claim C2 expects, for the page HELLO WORLD, an empty line, This is a test., a heading of
  level 2 and an entry for it in a table of contents. The corrector, at the default
  settings, hands on the single line HELLO WORLD This is a test. (the spell check joins
  the words with spaces, and the flow pass turns every run of white space, line feeds
  included, into one space), which is no heading: the generator answers the metadata block
  and one paragraph, with no table of contents even when it is asked for one, and so does
  \<^verbatim>\<open>processURL\<close>, which never asks. Given the two lines as they are, the generator
  raises the ReferenceError of \<^verbatim>\<open>determineHeadingLevel\<close>.
\<close>

theorem C2_scenario_has_no_heading:
  "fst (processText Fallback Some \<lparr> spellChecker = None, customDictionary = {} \<rparr>
          (OcrStructured (combinePageResults 0
             [\<lparr> page = 1, ptext = Some ''HELLO WORLD\<newline>\<newline>This is a test.'',
                confidence = Some 95, pwords = None \<rparr>]))
          defaultSettings)
     = ''HELLO WORLD This is a test.''
   \<and> generate ''2025-01-01T00:00:00.000Z'' (Some ''HELLO WORLD This is a test.'')
        \<lparr> sourceURL = ''https://example.com/a.pdf'', metadata = True, preserveFormatting = True,
          includeTableOfContents = True \<rparr>
     = Inr (generateMetadata ''2025-01-01T00:00:00.000Z'' ''https://example.com/a.pdf''
            @ ''**HELLO** **WORLD** This is a test.\<newline>'')
   \<and> processURL_markdown 0 ''2025-01-01T00:00:00.000Z'' Fallback Some
        [\<lparr> page = 1, ptext = Some ''HELLO WORLD\<newline>\<newline>This is a test.'', confidence = Some 95,
           pwords = None \<rparr>]
        defaultSettings ''https://example.com/a.pdf''
     = Inr (generateMetadata ''2025-01-01T00:00:00.000Z'' ''https://example.com/a.pdf''
            @ ''**HELLO** **WORLD** This is a test.\<newline>'')
   \<and> generate ''2025-01-01T00:00:00.000Z'' (Some ''HELLO WORLD\<newline>\<newline>This is a test.'')
        \<lparr> sourceURL = ''https://example.com/a.pdf'', metadata = True, preserveFormatting = True,
          includeTableOfContents = True \<rparr>
     = Inl ReferenceError"
  by code_simp

subsection \<open>Blank lines after the final cleanup\<close>

text \<open>
  Claim C8 says that the markdown never has three blank lines in a row. The cleanup caps
  the runs of line feeds first and then puts one more line feed in front of every heading:
  a paragraph, two empty lines and a numbered heading come out with three empty lines
  between them.
\<close>

theorem C8_three_blank_lines:
  "generate now (Some ''a\<newline>\<newline>\<newline>1. Title'')
      \<lparr> sourceURL = url, metadata = False, preserveFormatting = pf, includeTableOfContents = False \<rparr>
     = Inr ''a\<newline>\<newline>\<newline>\<newline>## Title\<newline>''"
proof -
  have pc: "processContent ''a\<newline>\<newline>\<newline>1. Title'' = Inr ''a\<newline>\<newline>\<newline>## Title''"
    by code_simp
  have fc: "finalCleanup ''a\<newline>\<newline>\<newline>## Title'' = ''a\<newline>\<newline>\<newline>\<newline>## Title\<newline>''"
    by code_simp
  show ?thesis
    by (simp add: generate_def Let_def pc fc)
qed

subsection \<open>Pages of low confidence\<close>

lemma low_pages_foldl:
  "acc_lowConfidencePages (foldl combineStep acc rs) =
     acc_lowConfidencePages acc
     @ map (\<lambda>p. \<lparr> lp_page = page p, lp_confidence = confidence p \<rparr>)
         (filter (\<lambda>p. hasText p \<and> confidenceOrZero p < 70) rs)"
  by (induction rs arbitrary: acc) (simp_all add: combineStep_def)

text \<open>
  Claim C9, as the source has it: the pages listed in \<^verbatim>\<open>lowConfidencePages\<close> are, in their
  order, the pages that have text (something other than white space) and a confidence,
  taken as 0 when it is missing, below 70.
\<close>

theorem C9_low_confidence_pages:
  "lowConfidencePages (ocrMetadata (combinePageResults now results)) =
     map (\<lambda>p. \<lparr> lp_page = page p, lp_confidence = confidence p \<rparr>)
       (filter (\<lambda>p. hasText p \<and> confidenceOrZero p < 70) results)"
  by (simp add: combinePageResults_def Let_def low_pages_foldl)

text \<open>
  The claim has no condition on the text. A page without text, which is what a page that
  failed is given, has confidence 0 and is not listed.
\<close>

theorem C9_counterexample:
  "confidenceOrZero \<lparr> page = 1, ptext = Some [], confidence = Some 0, pwords = None \<rparr> < 70
   \<and> lowConfidencePages (ocrMetadata (combinePageResults 0
        [\<lparr> page = 1, ptext = Some [], confidence = Some 0, pwords = None \<rparr>])) = []"
  by (simp add: combinePageResults_def combineStep_def hasText_def confidenceOrZero_def)

subsection \<open>The choice of a suggestion\<close>

text \<open>
  \<^verbatim>\<open>chooseBestSuggestion\<close> has the bound of the policy: without the aggressive mode the
  first suggestion is taken when its Levenshtein distance to the key, both in lower case,
  is at most the larger of 1 and three tenths of the length of the key, rounded down; with
  it, always. The word wrold is two substitutions away from world.
\<close>

lemma chooseBestSuggestion_policy:
  "chooseBestSuggestion originalWord (b # others) False =
     (if LevenshteinDistance (toLowerCase originalWord) (toLowerCase b)
           \<le> max 1 (3 * length originalWord div 10)
      then Some b else None)"
  "chooseBestSuggestion originalWord (b # others) True = Some b"
  by (simp_all add: chooseBestSuggestion_def Let_def)

lemma wrold_world_distance:
  "LevenshteinDistance (toLowerCase ''wrold'') (toLowerCase ''world'') = 2"
  by code_simp

text \<open>
  Claim C7 is about the tokens that the dictionary reports as misspelled. The method
  \<^verbatim>\<open>correct\<close> of the dictionary library tells whether a word is spelled correctly, and
  \<^verbatim>\<open>performSpellCheck\<close> takes its answer for \<^verbatim>\<open>isMisspelled\<close> as it comes, where the
  branch next to it negates \<^verbatim>\<open>check\<close>. So a token that the library reports as misspelled
  is never handed to \<^verbatim>\<open>chooseBestSuggestion\<close>: it is left as it is in both modes,
  whatever is suggested for it.
\<close>

theorem C7_misspelled_token_is_kept:
  assumes "\<not> correct lib (cleanWordOf word)"
  shows "spellCheckWord (Library lib) dict aggressiveMode word = word"
  using assms by (simp add: spellCheckWord_def checker_correct_def Let_def)

theorem C7_misspelled_token_is_kept_witness:
  "\<not> correct \<lparr> correct = (\<lambda>w. w = ''world''), suggest = (\<lambda>w. [''world'']) \<rparr> (cleanWordOf ''wrold'')
   \<and> suggest \<lparr> correct = (\<lambda>w. w = ''world''), suggest = (\<lambda>w. [''world'']) \<rparr> (cleanWordOf ''wrold'')
       = [''world'']
   \<and> spellCheckWord (Library \<lparr> correct = (\<lambda>w. w = ''world''), suggest = (\<lambda>w. [''world'']) \<rparr>)
         {} True ''wrold'' = ''wrold''
   \<and> spellCheckWord (Library \<lparr> correct = (\<lambda>w. w = ''world''), suggest = (\<lambda>w. [''world'']) \<rparr>)
         {} False ''wrold'' = ''wrold''
   \<and> performSpellCheck (Some (Library \<lparr> correct = (\<lambda>w. w = ''world''), suggest = (\<lambda>w. [''world'']) \<rparr>))
         {} ''wrold'' True = ''wrold''"
proof -
  let ?lib = "\<lparr> correct = (\<lambda>w. w = ''world''), suggest = (\<lambda>w. [''world'']) \<rparr>"
  have k: "cleanWordOf ''wrold'' = ''wrold''"
    by code_simp
  have h: "\<not> correct ?lib (cleanWordOf ''wrold'')"
    by (simp add: k)
  have s: "suggest ?lib (cleanWordOf ''wrold'') = [''world'']"
    by simp
  have w: "re_split (Many 1 None Space) ''wrold'' = [''wrold'']"
    by code_simp
  have j: "join '' '' [''wrold''] = ''wrold''"
    by simp
  have p: "performSpellCheck (Some (Library ?lib)) {} ''wrold'' True = ''wrold''"
    unfolding performSpellCheck_def
    by (simp only: option.case w list.map C7_misspelled_token_is_kept [OF h] j)
  from C7_misspelled_token_is_kept [OF h, of "{}" True]
    C7_misspelled_token_is_kept [OF h, of "{}" False] h s p
  show ?thesis
    by (intro conjI)
qed

text \<open>
  With a library that suggests nothing for the words it calls correct, the spell check
  replaces no token at all.
\<close>

lemma library_replaces_no_token:
  assumes "\<forall>w. correct lib w \<longrightarrow> suggest lib w = []"
  shows "spellCheckWord (Library lib) dict aggressiveMode word = word"
  using assms
  by (simp add: spellCheckWord_def checker_correct_def checker_suggest_def Let_def)

subsection \<open>Headings in the structure reconstruction\<close>

text \<open>
  A regular expression that starts with \<^verbatim>\<open>^\<close> matches at the start of the text or nowhere,
  and what a literal and a repetition leave of the text is known. A page marker starts with
  a hyphen and has the word \<^verbatim>\<open>Page\<close> in it, in lower case but for its first letter: it
  never looks like a heading.
\<close>

lemma search_Bol_later: "search (Seq Bol a) (Some y) r = None"
  by (induction r arbitrary: y) simp_all

lemma test_anchored:
  "re_test (seqs (Bol # rs)) s \<longleftrightarrow> matches (seqs rs) (None, s, []) \<noteq> []"
  by (cases s) (simp_all add: re_test_def re_match_def seqs_def search_Bol_later
      split: list.splits)

lemma matches_seqs_nonempty:
  "matches (seqs (a # rs)) st \<noteq> []
   \<Longrightarrow> \<exists>p' r' c'. (p', r', c') \<in> set (matches a st) \<and> matches (seqs rs) (p', r', c') \<noteq> []"
  by (auto simp add: seqs_def)

lemma matches_seqs_Cons:
  "matches (seqs (a # rs)) st = concat (map (matches (seqs rs)) (matches a st))"
  by (simp add: seqs_def)

lemma matches_Lit_rest:
  "(p', r', c') \<in> set (matches (Lit s) (p, r, c)) \<Longrightarrow> r = s @ r'"
proof (induction s arbitrary: p r)
  case Nil
  then show ?case by (simp add: Lit_def seqs_def)
next
  case (Cons x s)
  from Cons.prems obtain y ys where r: "r = y # ys"
    by (cases r) (simp_all add: Lit_def seqs_def)
  from Cons.prems r have y: "y = x"
    by (simp add: Lit_def seqs_def split: if_splits)
  from Cons.prems r y have "(p', r', c') \<in> set (matches (Lit s) (Some x, ys, c))"
    by (simp add: Lit_def seqs_def)
  then have "ys = s @ r'"
    by (rule Cons.IH)
  with r y show ?case by simp
qed

lemma matches_Many_rest:
  "(p', r', c') \<in> set (matches (Many m n k) (p, r, c))
   \<Longrightarrow> \<exists>ws. r = ws @ r' \<and> (\<forall>x \<in> set ws. cmem k x)"
proof -
  assume "(p', r', c') \<in> set (matches (Many m n k) (p, r, c))"
  then have "\<exists>j. j \<le> span k n r \<and> r' = drop j r"
    by (auto simp add: advance_def intro: less_imp_le)
  then obtain j where j: "j \<le> span k n r" and r': "r' = drop j r"
    by blast
  from j have "j \<le> length (takeWhile (cmem k) r)"
    by (simp add: span_def Let_def split: option.splits)
  then have "take j r = take j (takeWhile (cmem k) r)"
    by (metis takeWhile_eq_take take_take min.absorb1)
  then have "\<forall>x \<in> set (take j r). cmem k x"
    by (metis in_set_takeD set_takeWhileD)
  moreover have "r = take j r @ r'"
    by (simp add: r')
  ultimately show ?thesis
    by blast
qed

lemma pageMarker_shape:
  assumes "re_test pageMarker s"
  shows "\<exists>ws rest. s = ''---'' @ ws @ ''Page'' @ rest"
proof -
  from assms have "matches (seqs [Lit ''---'', Many 0 None Space, Lit ''Page'', Many 1 None Space,
                      Many 1 None Digit, Many 0 None Space, Lit ''---'', Eol]) (None, s, []) \<noteq> []"
    unfolding pageMarker_def test_anchored .
  then obtain p1 r1 c1 where 1: "(p1, r1, c1) \<in> set (matches (Lit ''---'') (None, s, []))"
    and m1: "matches (seqs [Many 0 None Space, Lit ''Page'', Many 1 None Space,
                      Many 1 None Digit, Many 0 None Space, Lit ''---'', Eol]) (p1, r1, c1) \<noteq> []"
    using matches_seqs_nonempty by blast
  from 1 have s: "s = ''---'' @ r1"
    by (rule matches_Lit_rest)
  from m1 obtain p2 r2 c2 where 2: "(p2, r2, c2) \<in> set (matches (Many 0 None Space) (p1, r1, c1))"
    and m2: "matches (seqs [Lit ''Page'', Many 1 None Space,
                      Many 1 None Digit, Many 0 None Space, Lit ''---'', Eol]) (p2, r2, c2) \<noteq> []"
    using matches_seqs_nonempty by blast
  from 2 obtain ws where r1: "r1 = ws @ r2"
    using matches_Many_rest by blast
  from m2 obtain p3 r3 c3 where 3: "(p3, r3, c3) \<in> set (matches (Lit ''Page'') (p2, r2, c2))"
    using matches_seqs_nonempty by blast
  from 3 have "r2 = ''Page'' @ r3"
    by (rule matches_Lit_rest)
  with s r1 show ?thesis
    by blast
qed

lemma pageMarker_not_heading:
  assumes "re_test pageMarker s"
  shows "\<not> looksLikeHeading s"
proof -
  from assms obtain ws rest where s: "s = ''---'' @ ws @ ''Page'' @ rest"
    using pageMarker_shape by blast
  have "CHR ''a'' \<in> set s"
    by (simp add: s)
  moreover have "upper_char CHR ''a'' \<noteq> CHR ''a''"
    by code_simp
  ultimately have u: "s \<noteq> toUpperCase s"
    unfolding toUpperCase_def by (metis map_eq_conv list.map_ident)
  obtain xs where x: "s = CHR ''-'' # xs"
    by (simp add: s)
  have a: "\<not> cmem upperAZ CHR ''-''" "\<not> is_digit CHR ''-''"
    by code_simp+
  have "\<not> re_test (seqs [Bol, Cls upperAZ, Many 0 None Digit, Cls dotParen, Cls Space]) s"
    by (simp add: test_anchored matches_seqs_Cons x a)
  moreover have "\<not> re_test (seqs [Bol, Many 1 None Digit, Cls dotParen, Cls Space]) s"
    by (simp add: test_anchored matches_seqs_Cons x a span_def)
  moreover have "\<not> re_test (seqs [Bol, Many 1 None (OneOf ''IVX''), Cls dotParen, Cls Space]) s"
    by (simp add: test_anchored matches_seqs_Cons x a span_def)
  ultimately show ?thesis
    using u by (simp add: looksLikeHeading_def)
qed

text \<open>
  Claim C4, as the source has it. A line that looks like a heading is never appended to the
  paragraph being collected: that paragraph is emitted before it, and the heading becomes
  the first line of a new paragraph. The paragraph is not closed after the heading, so the
  lines that follow may still be merged into it.
\<close>

theorem C4_heading_starts_paragraph:
  assumes "looksLikeHeading (trim raw)"
  shows "restoreStep (emitted, para) raw = (emitted @ flushParagraph para, [trim raw])"
proof -
  from assms have "trim raw \<noteq> []"
    by (auto simp add: looksLikeHeading_def)
  moreover from assms have "\<not> shouldMergeWithPrevious (trim raw) para"
    by (simp add: shouldMergeWithPrevious_def)
  moreover from assms have "\<not> re_test pageMarker (trim raw)"
    using pageMarker_not_heading by blast
  ultimately show ?thesis
    by (simp add: restoreStep_def Let_def)
qed

theorem C4_heading_starts_paragraph_witness:
  "looksLikeHeading (trim ''  INTRODUCTION '')
   \<and> restoreStep ([''Title''], [''some words'', ''and more'']) ''  INTRODUCTION ''
       = ([''Title'', ''some words and more''], [''INTRODUCTION''])"
proof -
  have h: "looksLikeHeading (trim ''  INTRODUCTION '')"
    by code_simp
  have t: "trim ''  INTRODUCTION '' = ''INTRODUCTION''"
    by code_simp
  have f: "[''Title''] @ flushParagraph [''some words'', ''and more'']
             = [''Title'', ''some words and more'']"
    by code_simp
  have "restoreStep ([''Title''], [''some words'', ''and more'']) ''  INTRODUCTION ''
          = ([''Title'', ''some words and more''], [''INTRODUCTION''])"
    using C4_heading_starts_paragraph [OF h] by (simp only: t f)
  with h show ?thesis
    by (intro conjI)
qed

text \<open>
  The claim has the paragraph reset after the heading, and no later line joined to it. The
  line after the heading INTRODUCTION is joined to it when it starts in lower case.
\<close>

theorem C4_counterexample:
  "looksLikeHeading ''INTRODUCTION''
   \<and> restoreTextStructure ''INTRODUCTION\<newline>this continues'' = ''INTRODUCTION this continues''"
  by code_simp

subsection \<open>The clock\<close>

text \<open>
  Claim C6, as the source has it. The generator reads the clock for the metadata block and
  nowhere else: without the metadata block, the markdown of \<^verbatim>\<open>generate\<close>, and that of the
  pipeline for the same pages and settings, does not depend on the time of the run.
\<close>

theorem C6_same_output_without_metadata:
  "(\<not> metadata opts \<longrightarrow> generate now1 t opts = generate now2 t opts)
   \<and> (\<not> includeMetadata stg \<longrightarrow>
        processURL_markdown clock1 now1 installed docText results stg url
        = processURL_markdown clock2 now2 installed docText results stg url)"
proof -
  have g: "generate n1 x o1 = generate n2 x o1" if "\<not> metadata o1" for n1 n2 x o1
    using that by (simp add: generate_def)
  have "extractText (OcrStructured (combinePageResults clock1 results))
          = extractText (OcrStructured (combinePageResults clock2 results))"
    by (simp add: extractText_def combinePageResults_def Let_def)
  then have "processText installed docText \<lparr> spellChecker = None, customDictionary = {} \<rparr>
               (OcrStructured (combinePageResults clock1 results)) stg
             = processText installed docText \<lparr> spellChecker = None, customDictionary = {} \<rparr>
                 (OcrStructured (combinePageResults clock2 results)) stg"
    by (rule processText_extract)
  then have "processURL_markdown clock1 now1 installed docText results stg url
        = processURL_markdown clock2 now2 installed docText results stg url"
    if "\<not> includeMetadata stg"
    using that g unfolding processURL_markdown_def Let_def by simp
  with g show ?thesis
    by blast
qed

theorem C6_same_output_without_metadata_witness:
  "\<not> metadata \<lparr> sourceURL = ''u'', metadata = False, preserveFormatting = True,
                 includeTableOfContents = False \<rparr>
   \<and> generate ''2025-01-01T00:00:00.000Z'' (Some ''One line.'')
        \<lparr> sourceURL = ''u'', metadata = False, preserveFormatting = True,
          includeTableOfContents = False \<rparr>
     = generate ''2025-01-01T00:00:00.001Z'' (Some ''One line.'')
        \<lparr> sourceURL = ''u'', metadata = False, preserveFormatting = True,
          includeTableOfContents = False \<rparr>
   \<and> \<not> includeMetadata (defaultSettings \<lparr> includeMetadata := False \<rparr>)
   \<and> processURL_markdown 1 ''2025-01-01T00:00:00.000Z'' Fallback Some
        [\<lparr> page = 1, ptext = Some ''One line.'', confidence = Some 95, pwords = None \<rparr>]
        (defaultSettings \<lparr> includeMetadata := False \<rparr>) ''u''
     = processURL_markdown 2 ''2025-01-01T00:00:00.001Z'' Fallback Some
        [\<lparr> page = 1, ptext = Some ''One line.'', confidence = Some 95, pwords = None \<rparr>]
        (defaultSettings \<lparr> includeMetadata := False \<rparr>) ''u''"
  using C6_same_output_without_metadata
    [of "\<lparr> sourceURL = ''u'', metadata = False, preserveFormatting = True,
           includeTableOfContents = False \<rparr>"
        "''2025-01-01T00:00:00.000Z''" "Some ''One line.''" "''2025-01-01T00:00:00.001Z''"
        "defaultSettings \<lparr> includeMetadata := False \<rparr>" 1 Fallback Some
        "[\<lparr> page = 1, ptext = Some ''One line.'', confidence = Some 95, pwords = None \<rparr>]"
        "''u''" 2]
  by (simp add: defaultSettings_def)

text \<open>
  The claim is for every configuration. With the metadata block, which is the default, two
  runs of \<^verbatim>\<open>generate\<close> on the same text, one millisecond apart, differ in the line
  \<^verbatim>\<open>processed_date\<close>.
\<close>

theorem C6_counterexample:
  "generate ''2025-01-01T00:00:00.000Z'' (Some ''One line.'')
      \<lparr> sourceURL = ''u'', metadata = True, preserveFormatting = True,
        includeTableOfContents = False \<rparr>
   \<noteq> generate ''2025-01-01T00:00:00.001Z'' (Some ''One line.'')
      \<lparr> sourceURL = ''u'', metadata = True, preserveFormatting = True,
        includeTableOfContents = False \<rparr>"
  by code_simp

subsection \<open>The flow normalisation\<close>

text \<open>Character classes.\<close>

lemma cmem_Space [simp]: "cmem Space = is_space"
  by (rule ext) simp

lemma cmem_punct [simp]: "cmem (OneOf '',.;:!?'') = is_punct"
  by (rule ext) (simp add: is_punct_def)

lemma cmem_stop [simp]: "cmem (OneOf ''.!?'') = is_stop"
  by (rule ext) (simp add: is_stop_def)

lemma cmem_lowerAZ [simp]: "cmem lowerAZ = is_lower"
  by (rule ext) (simp add: lowerAZ_def is_lower_def code_def)

lemma space_not_punct: "is_space c \<Longrightarrow> \<not> is_punct c"
  by (auto simp add: is_space_def is_punct_def)

lemma space_not_stop: "is_space c \<Longrightarrow> \<not> is_stop c"
  by (auto simp add: is_space_def is_stop_def)

lemma space_not_lower: "is_space c \<Longrightarrow> \<not> is_lower c"
  by (auto simp add: is_space_def is_lower_def code_def)

lemma punct_not_lower: "is_punct c \<Longrightarrow> \<not> is_lower c"
  by (auto simp add: is_punct_def is_lower_def code_def)

lemma stop_punct: "is_stop c \<Longrightarrow> is_punct c"
  by (auto simp add: is_stop_def is_punct_def)

lemma stop_not_lower: "is_stop c \<Longrightarrow> \<not> is_lower c"
  by (auto dest: stop_punct punct_not_lower)

lemma space_code: "is_space c \<Longrightarrow> code c \<le> 32"
  by (auto simp add: is_space_def code_def)

lemma punct_code: "is_punct c \<Longrightarrow> code c \<le> 63"
  by (auto simp add: is_punct_def code_def)

lemma upper_code:
  assumes "is_lower c"
  shows "code (upper_char c) = code c - 32"
proof -
  from assms have "code c - 32 < 256"
    unfolding is_lower_def by linarith
  then have "(code c - 32) mod 256 = code c - 32"
    by (rule mod_less)
  with assms show ?thesis
    by (simp add: upper_char_def code_def)
qed

lemma upper_not_space:
  assumes "is_lower c"
  shows "\<not> is_space (upper_char c)"
proof
  assume "is_space (upper_char c)"
  then have "code (upper_char c) \<le> 32" by (rule space_code)
  with upper_code [OF assms] assms show False
    unfolding is_lower_def by linarith
qed

lemma upper_not_punct:
  assumes "is_lower c"
  shows "\<not> is_punct (upper_char c)"
proof
  assume "is_punct (upper_char c)"
  then have "code (upper_char c) \<le> 63" by (rule punct_code)
  with upper_code [OF assms] assms show False
    unfolding is_lower_def by linarith
qed

lemma upper_not_stop: "is_lower c \<Longrightarrow> \<not> is_stop (upper_char c)"
  using upper_not_punct stop_punct by blast

lemma upper_not_lower:
  assumes "is_lower c"
  shows "\<not> is_lower (upper_char c)"
proof
  assume "is_lower (upper_char c)"
  then have "97 \<le> code (upper_char c)" by (simp add: is_lower_def)
  with upper_code [OF assms] assms show False
    unfolding is_lower_def by linarith
qed

lemma space_space [simp]: "is_space CHR '' ''"
  by (simp add: is_space_def)

text \<open>The first character of a text.\<close>

lemma first_is_Cons [simp]: "first_is P (x # xs) = P x"
  by (simp add: first_is_def)

lemma first_is_Nil [simp]: "\<not> first_is P []"
  by (simp add: first_is_def)

lemma first_is_dropWhile [simp]: "\<not> first_is P (dropWhile P r)"
  by (induction r) auto

lemma first_is_hd: "first_is P r \<Longrightarrow> r = hd r # tl r \<and> P (hd r)"
  by (cases r) auto

lemma first_is_drop: "j < length (takeWhile P r) \<Longrightarrow> first_is P (drop j r)"
proof (induction r arbitrary: j)
  case Nil
  then show ?case by simp
next
  case (Cons a r)
  then show ?case by (cases j) (auto split: if_splits)
qed

text \<open>The matcher on the shapes of expression that the passes use.\<close>

lemma matches_Seq_Empty [simp]: "matches (Seq a Empty) st = matches a st"
proof -
  have "concat (map (matches Empty) xs) = xs" for xs
    by (induction xs) simp_all
  then show ?thesis by simp
qed

lemma span_None [simp]: "span k None r = length (takeWhile (cmem k) r)"
  by (simp add: span_def)

lemma match_grp_cls:
  "matches (Grp i (Cls k)) (p, r, c) =
     (if first_is (cmem k) r then [(Some (hd r), tl r, (i, [hd r]) # c)] else [])"
  by (cases r) auto

lemma match_cls:
  "matches (Cls k) (p, r, c) = (if first_is (cmem k) r then [(Some (hd r), tl r, c)] else [])"
  by (cases r) auto

declare matches.simps [simp del]

lemma concat_map_Nil: "(\<And>x. x \<in> set xs \<Longrightarrow> f x = []) \<Longrightarrow> concat (map f xs) = []"
  by (induction xs) auto

lemma rev_upt_Suc: "m \<le> n \<Longrightarrow> rev [m ..< Suc n] = n # rev [m ..< n]"
  by simp

lemma concat_map_rev_upt:
  assumes "\<forall>j < n. F j = []"
  shows "concat (map F (rev [m ..< Suc n])) = (if m \<le> n then F n else [])"
proof (cases "m \<le> n")
  case True
  have "concat (map F (rev [m ..< n])) = []"
    using assms by (intro concat_map_Nil) simp
  with True show ?thesis
    by (simp add: rev_upt_Suc del: upt_Suc)
next
  case False
  then show ?thesis by simp
qed

lemma drop_takeWhile_length: "drop (length (takeWhile P r)) r = dropWhile P r"
  by (simp add: dropWhile_eq_drop)

lemma advance_span:
  "advance (length (takeWhile P r)) (p, r, c) =
     (if takeWhile P r = [] then p else Some (last (takeWhile P r)), dropWhile P r, c)"
proof -
  have "r ! (length (takeWhile P r) - 1) = last (takeWhile P r)" if "takeWhile P r \<noteq> []"
    using that
    by (metis One_nat_def diff_less last_conv_nth length_greater_0_conv takeWhile_nth zero_less_one)
  then show ?thesis
    by (auto simp add: advance_def drop_takeWhile_length)
qed

lemma many_seq:
  assumes "\<forall>p' r' c'. first_is (cmem k) r' \<longrightarrow> matches b (p', r', c') = []"
  shows "matches (Seq (Many m None k) b) (p, r, c) =
           (if m \<le> length (takeWhile (cmem k) r)
            then matches b (advance (length (takeWhile (cmem k) r)) (p, r, c)) else [])"
proof -
  have "\<forall>j < length (takeWhile (cmem k) r). matches b (advance j (p, r, c)) = []"
  proof (intro allI impI)
    fix j assume "j < length (takeWhile (cmem k) r)"
    then have "first_is (cmem k) (drop j r)" by (rule first_is_drop)
    with assms show "matches b (advance j (p, r, c)) = []"
      by (simp add: advance_def)
  qed
  from concat_map_rev_upt [OF this] show ?thesis
    by (simp add: matches.simps comp_def del: upt_Suc)
qed

text \<open>One step of a global replacement.\<close>

lemma replace_go_match:
  "matches re (p, r, []) = (p', r', c) # rest \<Longrightarrow> length r' < length r \<Longrightarrow>
     replace_go re f p r = f (take (length r - length r') r) c @ replace_go re f p' r'"
  by (subst replace_go.simps) simp

lemma replace_go_nomatch:
  "matches re (p, x # xs, []) = [] \<Longrightarrow>
     replace_go re f p (x # xs) = x # replace_go re f (Some x) xs"
  by (subst replace_go.simps) simp

lemma replace_go_Nil:
  "matches re (p, [], []) = [] \<Longrightarrow> replace_go re f p [] = []"
  by (subst replace_go.simps) simp

lemma tl_dropWhile_less: "length (tl (dropWhile P xs)) < length (x # xs)"
  by (simp add: le_imp_less_Suc length_dropWhile_le le_trans [OF diff_le_self])

lemma dropWhile_less: "length (dropWhile P xs) < length (x # xs)"
  by (simp add: le_imp_less_Suc length_dropWhile_le)

text \<open>The first pass.\<close>

lemma match_spaces:
  "matches (Many 2 None Space) (p, x # xs, []) =
     (if is_space x \<and> first_is is_space xs
      then advance (length (takeWhile is_space (x # xs))) (p, x # xs, [])
           # map (\<lambda>j. advance j (p, x # xs, [])) (rev [2 ..< length (takeWhile is_space (x # xs))])
      else [])"
  by (cases xs) (auto simp add: matches.simps)

lemma flowSpaces_go:
  "replace_go (Many 2 None Space) (\<lambda>m c. '' '') p r = collapse_ws r"
proof (induction r arbitrary: p rule: collapse_ws.induct)
  case 1
  show ?case by (simp add: replace_go_Nil matches.simps)
next
  case (2 x xs)
  show ?case
  proof (cases "is_space x \<and> first_is is_space xs")
    case True
    have a: "advance (length (takeWhile is_space (x # xs))) (p, x # xs, [])
               = (Some (last (takeWhile is_space (x # xs))), dropWhile is_space xs, [])"
      using True by (simp only: advance_span) simp
    have m: "matches (Many 2 None Space) (p, x # xs, [])
               = (Some (last (takeWhile is_space (x # xs))), dropWhile is_space xs, [])
                 # map (\<lambda>j. advance j (p, x # xs, [])) (rev [2 ..< length (takeWhile is_space (x # xs))])"
      using True by (simp only: match_spaces a simp_thms if_True)
    show ?thesis
      using replace_go_match [OF m dropWhile_less, of "\<lambda>m c. '' ''"] 2(1) [OF True] True
      by simp
  next
    case False
    then have m: "matches (Many 2 None Space) (p, x # xs, []) = []"
      by (simp only: match_spaces simp_thms if_False)
    show ?thesis
      using replace_go_nomatch [OF m] 2(2) [OF False] False by auto
  qed
qed

text \<open>The second pass.\<close>

lemma match_seq_grp_cls:
  "matches (Seq (Grp i (Cls k)) b) (p, r, c) =
     (if first_is (cmem k) r then matches b (Some (hd r), tl r, (i, [hd r]) # c) else [])"
  by (simp add: matches.simps(4) match_grp_cls)

lemma punct_after_space:
  "\<forall>p' r' c'. first_is (cmem Space) r' \<longrightarrow>
     matches (Grp i (Cls (OneOf '',.;:!?''))) (p', r', c') = []"
  by (auto simp add: match_grp_cls dest: first_is_hd space_not_punct)

lemma match_before_punct:
  "matches (Seq (Many 1 None Space) (Grp 1 (Cls (OneOf '',.;:!?'')))) (p, x # xs, []) =
     (if is_space x \<and> first_is is_punct (dropWhile is_space xs)
      then [(Some (hd (dropWhile is_space xs)), tl (dropWhile is_space xs),
             [(1, [hd (dropWhile is_space xs)])])]
      else [])"
  by (simp only: many_seq [OF punct_after_space] cmem_Space advance_span match_grp_cls
        cong: if_cong) auto

lemma flowBeforePunct_go:
  "replace_go (Seq (Many 1 None Space) (Grp 1 (Cls (OneOf '',.;:!?'')))) (\<lambda>m c. grp_text c 1) p r
     = strip_ws_before_punct r"
proof (induction r arbitrary: p rule: strip_ws_before_punct.induct)
  case 1
  show ?case
    by (rule trans [OF replace_go_Nil]) (simp_all add: many_seq [OF punct_after_space])
next
  case (2 x xs)
  let ?re = "Seq (Many 1 None Space) (Grp 1 (Cls (OneOf '',.;:!?'')))"
  let ?d = "dropWhile is_space xs"
  show ?case
  proof (cases "is_space x \<and> first_is is_punct ?d")
    case True
    then have m: "matches ?re (p, x # xs, []) = (Some (hd ?d), tl ?d, [(1, [hd ?d])]) # []"
      by (simp only: match_before_punct simp_thms if_True)
    show ?thesis
      using replace_go_match [OF m tl_dropWhile_less, of "\<lambda>m c. grp_text c 1"] 2(1) [OF True] True
      by (simp add: grp_text_def)
  next
    case False
    then have m: "matches ?re (p, x # xs, []) = []"
      by (simp only: match_before_punct simp_thms if_False)
    show ?thesis
      using replace_go_nomatch [OF m] 2(2) [OF False] False by auto
  qed
qed

text \<open>The third pass.\<close>

lemma lower_after_space:
  "\<forall>p' r' c'. first_is (cmem Space) r' \<longrightarrow>
     matches (Seq (Grp i (Cls lowerAZ)) Empty) (p', r', c') = []"
  by (auto simp add: match_grp_cls dest: first_is_hd space_not_lower)

lemma match_after_stop:
  "matches (seqs [Grp 1 (Cls (OneOf ''.!?'')), Many 0 None Space, Grp 2 (Cls lowerAZ)]) (p, x # xs, []) =
     (if is_stop x \<and> first_is is_lower (dropWhile is_space xs)
      then [(Some (hd (dropWhile is_space xs)), tl (dropWhile is_space xs),
             [(2, [hd (dropWhile is_space xs)]), (1, [x])])]
      else [])"
proof -
  have s: "seqs [Grp 1 (Cls (OneOf ''.!?'')), Many 0 None Space, Grp 2 (Cls lowerAZ)]
             = Seq (Grp 1 (Cls (OneOf ''.!?''))) (Seq (Many 0 None Space) (Seq (Grp 2 (Cls lowerAZ)) Empty))"
    by (simp add: seqs_def)
  show ?thesis
    unfolding s
    by (simp add: match_seq_grp_cls match_grp_cls many_seq [OF lower_after_space] advance_span)
qed

lemma flowAfterPunct_go:
  "replace_go (seqs [Grp 1 (Cls (OneOf ''.!?'')), Many 0 None Space, Grp 2 (Cls lowerAZ)])
       (\<lambda>m c. grp_text c 1 @ '' '' @ grp_text c 2) p r
     = space_after_stop r"
proof (induction r arbitrary: p rule: space_after_stop.induct)
  case 1
  show ?case
    by (rule trans [OF replace_go_Nil])
       (simp_all add: seqs_def match_seq_grp_cls)
next
  case (2 x xs)
  let ?re = "seqs [Grp 1 (Cls (OneOf ''.!?'')), Many 0 None Space, Grp 2 (Cls lowerAZ)]"
  let ?d = "dropWhile is_space xs"
  show ?case
  proof (cases "is_stop x \<and> first_is is_lower ?d")
    case True
    then have m: "matches ?re (p, x # xs, []) = (Some (hd ?d), tl ?d, [(2, [hd ?d]), (1, [x])]) # []"
      by (simp only: match_after_stop simp_thms if_True)
    show ?thesis
      using replace_go_match [OF m tl_dropWhile_less, of "\<lambda>m c. grp_text c 1 @ '' '' @ grp_text c 2"]
        2(1) [OF True] True
      by (simp add: grp_text_def)
  next
    case False
    then have m: "matches ?re (p, x # xs, []) = []"
      by (simp only: match_after_stop simp_thms if_False)
    show ?thesis
      using replace_go_nomatch [OF m] 2(2) [OF False] False by auto
  qed
qed

text \<open>The fourth pass.\<close>

lemma take_run:
  "take (Suc (length xs) - length (dropWhile P xs)) (x # xs) = x # takeWhile P xs"
proof -
  have "length xs - length (dropWhile P xs) = length (takeWhile P xs)"
    by (metis add_diff_cancel_right' length_append takeWhile_dropWhile_id)
  moreover have "length (dropWhile P xs) \<le> length xs"
    by (rule length_dropWhile_le)
  ultimately have "Suc (length xs) - length (dropWhile P xs) = Suc (length (takeWhile P xs))"
    by linarith
  then show ?thesis
    by (simp add: takeWhile_eq_take [symmetric])
qed

lemma match_capital:
  "matches (Seq (Grp 1 (Seq (Cls (OneOf ''.!?'')) (Many 1 None Space))) (Grp 2 (Cls lowerAZ)))
       (p, x # xs, []) =
     (if is_stop x \<and> first_is is_space xs \<and> first_is is_lower (dropWhile is_space xs)
      then [(Some (hd (dropWhile is_space xs)), tl (dropWhile is_space xs),
             [(2, [hd (dropWhile is_space xs)]), (1, x # takeWhile is_space xs)])]
      else [])"
proof -
  let ?n = "length (takeWhile is_space xs)"
  let ?d = "dropWhile is_space xs"
  define F where "F = (\<lambda>j. matches (Grp 2 (Cls lowerAZ))
      (case advance j (Some x, xs, []) of
         (p', r', c') \<Rightarrow> (p', r', (1, take (length (x # xs) - length r') (x # xs)) # c')))"
  have e: "matches (Seq (Grp 1 (Seq (Cls (OneOf ''.!?'')) (Many 1 None Space))) (Grp 2 (Cls lowerAZ)))
             (p, x # xs, [])
           = (if is_stop x then concat (map F (rev [1 ..< Suc ?n])) else [])"
    by (simp add: matches.simps match_cls F_def comp_def del: upt_Suc)
  have z: "\<forall>j < ?n. F j = []"
  proof (intro allI impI)
    fix j assume "j < ?n"
    then have "first_is is_space (drop j xs)" by (rule first_is_drop)
    then have "\<not> first_is is_lower (drop j xs)"
      by (auto dest: first_is_hd space_not_lower)
    then show "F j = []"
      by (simp add: F_def advance_def match_grp_cls)
  qed
  have n: "F ?n = (if first_is is_lower ?d
                   then [(Some (hd ?d), tl ?d, [(2, [hd ?d]), (1, x # takeWhile is_space xs)])]
                   else [])"
    by (simp add: F_def advance_span match_grp_cls take_run)
  have o: "(1 \<le> ?n) = first_is is_space xs"
    by (cases xs) auto
  show ?thesis
    unfolding e concat_map_rev_upt [OF z] n o by simp
qed

lemma flowCapitals_go:
  "replace_go (Seq (Grp 1 (Seq (Cls (OneOf ''.!?'')) (Many 1 None Space))) (Grp 2 (Cls lowerAZ)))
       (\<lambda>m c. grp_text c 1 @ toUpperCase (grp_text c 2)) p r
     = capital_after_stop r"
proof (induction r arbitrary: p rule: capital_after_stop.induct)
  case 1
  show ?case
    by (rule trans [OF replace_go_Nil]) (simp_all add: matches.simps)
next
  case (2 x xs)
  let ?re = "Seq (Grp 1 (Seq (Cls (OneOf ''.!?'')) (Many 1 None Space))) (Grp 2 (Cls lowerAZ))"
  let ?d = "dropWhile is_space xs"
  show ?case
  proof (cases "is_stop x \<and> first_is is_space xs \<and> first_is is_lower ?d")
    case True
    then have m: "matches ?re (p, x # xs, [])
                    = (Some (hd ?d), tl ?d, [(2, [hd ?d]), (1, x # takeWhile is_space xs)]) # []"
      by (simp only: match_capital simp_thms if_True)
    show ?thesis
      using replace_go_match [OF m tl_dropWhile_less,
              of "\<lambda>m c. grp_text c 1 @ toUpperCase (grp_text c 2)"]
        2(1) [OF True] True
      by (simp add: grp_text_def toUpperCase_def)
  next
    case False
    then have m: "matches ?re (p, x # xs, []) = []"
      by (simp only: match_capital simp_thms if_False)
    show ?thesis
      using replace_go_nomatch [OF m] 2(2) [OF False] False by auto
  qed
qed

text \<open>The passes are the scans.\<close>

lemma flowSpaces_scan: "flowSpaces t = collapse_ws t"
  unfolding flowSpaces_def replace_all_def by (rule flowSpaces_go)

lemma flowBeforePunct_scan: "flowBeforePunct t = strip_ws_before_punct t"
  unfolding flowBeforePunct_def replace_all_def by (rule flowBeforePunct_go)

lemma flowAfterPunct_scan: "flowAfterPunct t = space_after_stop t"
  unfolding flowAfterPunct_def replace_all_def by (rule flowAfterPunct_go)

lemma flowCapitals_scan: "flowCapitals t = capital_after_stop t"
  unfolding flowCapitals_def replace_all_def by (rule flowCapitals_go)

text \<open>The three properties hold of the tails of a text.\<close>

lemma no_double_ws_dropWhile: "no_double_ws r \<Longrightarrow> no_double_ws (dropWhile P r)"
  by (induction r) auto

lemma no_double_ws_tl: "no_double_ws r \<Longrightarrow> no_double_ws (tl r)"
  by (cases r) auto

lemma no_ws_before_punct_dropWhile: "no_ws_before_punct r \<Longrightarrow> no_ws_before_punct (dropWhile P r)"
  by (induction r) auto

lemma no_ws_before_punct_tl: "no_ws_before_punct r \<Longrightarrow> no_ws_before_punct (tl r)"
  by (cases r) auto

lemma one_space_after_stop_dropWhile:
  "one_space_after_stop r \<Longrightarrow> one_space_after_stop (dropWhile P r)"
  by (induction r) auto

lemma one_space_after_stop_tl: "one_space_after_stop r \<Longrightarrow> one_space_after_stop (tl r)"
  by (cases r) auto

text \<open>After the first pass.\<close>

lemma first_space_collapse: "first_is is_space (collapse_ws r) \<Longrightarrow> first_is is_space r"
  by (cases r) (auto split: if_splits)

lemma no_double_ws_collapse: "no_double_ws (collapse_ws r)"
proof (induction r rule: collapse_ws.induct)
  case 1
  show ?case by simp
next
  case (2 x xs)
  have "\<not> first_is is_space (collapse_ws (dropWhile is_space xs))"
    using first_space_collapse [of "dropWhile is_space xs"] by auto
  with 2 show ?case
    by (auto dest: first_space_collapse)
qed

lemma collapse_fixed: "no_double_ws r \<Longrightarrow> collapse_ws r = r"
  by (induction r) auto

text \<open>After the second pass.\<close>

lemma first_space_strip:
  "first_is is_space (strip_ws_before_punct r) \<Longrightarrow> first_is is_space r"
  by (cases r) (auto split: if_splits dest: first_is_hd)

lemma first_punct_strip:
  "first_is is_punct (strip_ws_before_punct r) \<Longrightarrow> first_is is_punct (dropWhile is_space r)"
  by (cases r) (auto split: if_splits dest: space_not_punct)

lemma no_double_ws_strip: "no_double_ws r \<Longrightarrow> no_double_ws (strip_ws_before_punct r)"
proof (induction r rule: strip_ws_before_punct.induct)
  case 1
  show ?case by simp
next
  case (2 x xs)
  show ?case
  proof (cases "is_space x \<and> first_is is_punct (dropWhile is_space xs)")
    case True
    from 2(3) have "no_double_ws (tl (dropWhile is_space xs))"
      by (simp add: no_double_ws_dropWhile no_double_ws_tl)
    with 2(1) [OF True] have "no_double_ws (strip_ws_before_punct (tl (dropWhile is_space xs)))"
      by simp
    moreover from True have "\<not> is_space (hd (dropWhile is_space xs))"
      by (auto dest: first_is_hd space_not_punct)
    ultimately show ?thesis
      using True by simp
  next
    case False
    with 2(2) [OF False] 2(3) show ?thesis
      by (auto dest: first_space_strip)
  qed
qed

lemma no_ws_before_punct_strip: "no_ws_before_punct (strip_ws_before_punct r)"
proof (induction r rule: strip_ws_before_punct.induct)
  case 1
  show ?case by simp
next
  case (2 x xs)
  show ?case
  proof (cases "is_space x \<and> first_is is_punct (dropWhile is_space xs)")
    case True
    moreover from True have "\<not> is_space (hd (dropWhile is_space xs))"
      by (auto dest: first_is_hd space_not_punct)
    ultimately show ?thesis
      using 2(1) [OF True] by simp
  next
    case False
    with 2(2) [OF False] show ?thesis
      by (auto dest: first_punct_strip)
  qed
qed

lemma no_punct_after_run:
  "no_ws_before_punct r \<Longrightarrow> first_is is_space r \<Longrightarrow> \<not> first_is is_punct (dropWhile is_space r)"
proof (induction r)
  case Nil
  then show ?case by simp
next
  case (Cons x xs)
  then show ?case
    by (cases xs) (auto dest: space_not_punct)
qed

lemma strip_fixed: "no_ws_before_punct r \<Longrightarrow> strip_ws_before_punct r = r"
proof (induction r)
  case Nil
  show ?case by simp
next
  case (Cons x xs)
  have "\<not> (is_space x \<and> first_is is_punct (dropWhile is_space xs))"
    using no_punct_after_run [OF Cons(2)] by auto
  with Cons show ?case by auto
qed

text \<open>After the third pass.\<close>

lemma first_space_after: "first_is P (space_after_stop r) = first_is P r"
  by (cases r) auto

lemma dropWhile_space_after:
  "dropWhile is_space (space_after_stop r) = space_after_stop (dropWhile is_space r)"
  by (induction r) (auto dest: space_not_stop)

lemma no_double_ws_after: "no_double_ws r \<Longrightarrow> no_double_ws (space_after_stop r)"
proof (induction r rule: space_after_stop.induct)
  case 1
  show ?case by simp
next
  case (2 x xs)
  show ?case
  proof (cases "is_stop x \<and> first_is is_lower (dropWhile is_space xs)")
    case True
    from 2(3) have "no_double_ws (tl (dropWhile is_space xs))"
      by (simp add: no_double_ws_dropWhile no_double_ws_tl)
    with 2(1) [OF True] have "no_double_ws (space_after_stop (tl (dropWhile is_space xs)))"
      by simp
    moreover from True have "\<not> is_space (hd (dropWhile is_space xs))" "\<not> is_space x"
      by (auto dest: first_is_hd space_not_lower space_not_stop)
    ultimately show ?thesis
      using True by simp
  next
    case False
    with 2(2) [OF False] 2(3) show ?thesis
      by (auto simp add: first_space_after)
  qed
qed

lemma no_ws_before_punct_after:
  "no_ws_before_punct r \<Longrightarrow> no_ws_before_punct (space_after_stop r)"
proof (induction r rule: space_after_stop.induct)
  case 1
  show ?case by simp
next
  case (2 x xs)
  show ?case
  proof (cases "is_stop x \<and> first_is is_lower (dropWhile is_space xs)")
    case True
    from 2(3) have "no_ws_before_punct (tl (dropWhile is_space xs))"
      by (simp add: no_ws_before_punct_dropWhile no_ws_before_punct_tl)
    with 2(1) [OF True] have "no_ws_before_punct (space_after_stop (tl (dropWhile is_space xs)))"
      by simp
    moreover from True have "\<not> is_space (hd (dropWhile is_space xs))"
      "\<not> is_punct (hd (dropWhile is_space xs))" "\<not> is_space x"
      by (auto dest: first_is_hd space_not_lower space_not_stop punct_not_lower)
    ultimately show ?thesis
      using True by simp
  next
    case False
    with 2(2) [OF False] 2(3) show ?thesis
      by (auto simp add: first_space_after)
  qed
qed

lemma one_space_after: "one_space_after_stop (space_after_stop r)"
proof (induction r rule: space_after_stop.induct)
  case 1
  show ?case by simp
next
  case (2 x xs)
  show ?case
  proof (cases "is_stop x \<and> first_is is_lower (dropWhile is_space xs)")
    case True
    moreover from True have "\<not> is_space (hd (dropWhile is_space xs))"
      "\<not> is_stop (hd (dropWhile is_space xs))"
      by (auto dest: first_is_hd space_not_lower stop_not_lower)
    ultimately show ?thesis
      using 2(1) [OF True] by (simp add: space_not_stop)
  next
    case False
    with 2(2) [OF False] show ?thesis
      by (auto simp add: dropWhile_space_after first_space_after)
  qed
qed

text \<open>After the fourth pass.\<close>

lemma first_capital: "first_is P (capital_after_stop r) = first_is P r"
  by (cases r) auto

lemma dropWhile_capital:
  "dropWhile is_space (capital_after_stop r) = capital_after_stop (dropWhile is_space r)"
  by (induction r) (auto dest: space_not_stop)

lemma first_is_cong: "map P r = map P r' \<Longrightarrow> first_is P r = first_is P r'"
  by (cases r; cases r') auto

lemma no_double_ws_cong:
  "map is_space r = map is_space r' \<Longrightarrow> no_double_ws r = no_double_ws r'"
proof (induction r arbitrary: r')
  case Nil
  then show ?case by simp
next
  case (Cons x xs)
  then obtain y ys where r': "r' = y # ys" by (cases r') auto
  with Cons.prems have "is_space x = is_space y" "map is_space xs = map is_space ys"
    by auto
  with Cons.IH [of ys] first_is_cong [of is_space xs ys] r' show ?case
    by simp
qed

lemma no_ws_before_punct_cong:
  "map is_space r = map is_space r' \<Longrightarrow> map is_punct r = map is_punct r' \<Longrightarrow>
     no_ws_before_punct r = no_ws_before_punct r'"
proof (induction r arbitrary: r')
  case Nil
  then show ?case by simp
next
  case (Cons x xs)
  then obtain y ys where r': "r' = y # ys" by (cases r') auto
  with Cons.prems have "is_space x = is_space y" "map is_space xs = map is_space ys"
    "map is_punct xs = map is_punct ys"
    by auto
  with Cons.IH [of ys] first_is_cong [of is_punct xs ys] r' show ?case
    by simp
qed

lemma capital_classes:
  "map is_space (capital_after_stop r) = map is_space r
   \<and> map is_punct (capital_after_stop r) = map is_punct r"
proof (induction r rule: capital_after_stop.induct)
  case 1
  show ?case by simp
next
  case (2 x xs)
  show ?case
  proof (cases "is_stop x \<and> first_is is_space xs \<and> first_is is_lower (dropWhile is_space xs)")
    case True
    let ?d = "dropWhile is_space xs"
    from True have l: "is_lower (hd ?d)" and d: "?d = hd ?d # tl ?d"
      by (auto dest: first_is_hd)
    have xs: "takeWhile is_space xs @ hd ?d # tl ?d = xs"
      using d by (metis takeWhile_dropWhile_id)
    have "map is_space (takeWhile is_space xs @ hd ?d # tl ?d)
            = map is_space (takeWhile is_space xs) @ False # map is_space (tl ?d)"
      "map is_punct (takeWhile is_space xs @ hd ?d # tl ?d)
            = map is_punct (takeWhile is_space xs) @ False # map is_punct (tl ?d)"
      using l by (auto dest: space_not_lower punct_not_lower)
    then have "map is_space xs = map is_space (takeWhile is_space xs) @ False # map is_space (tl ?d)"
      "map is_punct xs = map is_punct (takeWhile is_space xs) @ False # map is_punct (tl ?d)"
      by (simp_all only: xs)
    with 2(1) [OF True] True l show ?thesis
      by (simp add: upper_not_space upper_not_punct)
  next
    case False
    with 2(2) [OF False] show ?thesis by auto
  qed
qed

lemma no_double_ws_capital: "no_double_ws r \<Longrightarrow> no_double_ws (capital_after_stop r)"
  using no_double_ws_cong [of "capital_after_stop r" r] capital_classes [of r] by simp

lemma no_ws_before_punct_capital:
  "no_ws_before_punct r \<Longrightarrow> no_ws_before_punct (capital_after_stop r)"
  using no_ws_before_punct_cong [of "capital_after_stop r" r] capital_classes [of r] by simp

lemma no_lower_after_run:
  "\<forall>c \<in> set a. \<not> is_stop c \<Longrightarrow> no_lower_after_stop (a @ b) = no_lower_after_stop b"
  by (induction a) auto

lemma no_lower_capital: "one_space_after_stop r \<Longrightarrow> no_lower_after_stop (capital_after_stop r)"
proof (induction r rule: capital_after_stop.induct)
  case 1
  show ?case by simp
next
  case (2 x xs)
  let ?d = "dropWhile is_space xs"
  show ?case
  proof (cases "is_stop x \<and> first_is is_space xs \<and> first_is is_lower ?d")
    case True
    from 2(3) have "one_space_after_stop (tl ?d)"
      by (simp add: one_space_after_stop_dropWhile one_space_after_stop_tl)
    with 2(1) [OF True] have r: "no_lower_after_stop (capital_after_stop (tl ?d))"
      by simp
    from True have l: "is_lower (hd ?d)"
      by (auto dest: first_is_hd)
    have s: "\<forall>c \<in> set (takeWhile is_space xs). \<not> is_stop c"
      by (auto dest: set_takeWhileD space_not_stop)
    have "dropWhile is_space (takeWhile is_space xs @ upper_char (hd ?d) # capital_after_stop (tl ?d))
            = dropWhile is_space (upper_char (hd ?d) # capital_after_stop (tl ?d))"
      by (rule dropWhile_append2) (auto dest: set_takeWhileD)
    then have "dropWhile is_space (takeWhile is_space xs @ upper_char (hd ?d) # capital_after_stop (tl ?d))
            = upper_char (hd ?d) # capital_after_stop (tl ?d)"
      using l by (simp add: upper_not_space)
    with True r l s show ?thesis
      by (simp add: no_lower_after_run upper_not_lower upper_not_stop)
  next
    case False
    have "\<not> (is_stop x \<and> first_is is_lower ?d)"
    proof
      assume a: "is_stop x \<and> first_is is_lower ?d"
      with 2(3) have "takeWhile is_space xs = '' ''" by simp
      then have "first_is is_space xs" by (cases xs) (auto split: if_splits)
      with a False show False by simp
    qed
    with 2(2) [OF False] 2(3) False show ?thesis
      by (auto simp add: dropWhile_capital first_capital)
  qed
qed

lemma space_after_fixed: "no_lower_after_stop r \<Longrightarrow> space_after_stop r = r"
  by (induction r) auto

lemma capital_fixed: "no_lower_after_stop r \<Longrightarrow> capital_after_stop r = r"
  by (induction r) auto

text \<open>The four passes, one after the other, and then once more.\<close>

lemma flowPasses_normal:
  "no_double_ws (flowPasses t) \<and> no_ws_before_punct (flowPasses t)
   \<and> no_lower_after_stop (flowPasses t)"
  by (simp add: flowPasses_def flowSpaces_scan flowBeforePunct_scan flowAfterPunct_scan
        flowCapitals_scan no_double_ws_collapse no_double_ws_strip no_double_ws_after
        no_double_ws_capital no_ws_before_punct_strip no_ws_before_punct_after
        no_ws_before_punct_capital one_space_after no_lower_capital)

lemma flowPasses_fixed:
  "no_double_ws t \<Longrightarrow> no_ws_before_punct t \<Longrightarrow> no_lower_after_stop t \<Longrightarrow> flowPasses t = t"
  by (simp add: flowPasses_def flowSpaces_scan flowBeforePunct_scan flowAfterPunct_scan
        flowCapitals_scan collapse_fixed strip_fixed space_after_fixed capital_fixed)

lemma flowPasses_idem: "flowPasses (flowPasses t) = flowPasses t"
  using flowPasses_normal [of t] by (simp add: flowPasses_fixed)

text \<open>
  A text that is not all white space stays so through the four passes: they remove white
  space only, and what they put in is a space or a capital letter.
\<close>

lemma trim_Nil_iff: "trim s = [] \<longleftrightarrow> (\<forall>c \<in> set s. is_space c)"
proof -
  have a: "dropWhile P xs = [] \<longleftrightarrow> (\<forall>x \<in> set xs. P x)" for P and xs :: string
    by (induction xs) auto
  have "trim s = [] \<longleftrightarrow> dropWhile is_space (rev (dropWhile is_space s)) = []"
    by (simp add: trim_def trimEnd_def trimStart_def)
  also have "\<dots> \<longleftrightarrow> (\<forall>c \<in> set (dropWhile is_space s). is_space c)"
    by (simp add: a)
  also have "\<dots> \<longleftrightarrow> dropWhile is_space s = []"
    by (metis a dropWhile_idem)
  also have "\<dots> \<longleftrightarrow> (\<forall>c \<in> set s. is_space c)"
    by (rule a)
  finally show ?thesis .
qed

lemma solid_dropWhile:
  "\<exists>c \<in> set xs. \<not> is_space c \<Longrightarrow> \<exists>c \<in> set (dropWhile is_space xs). \<not> is_space c"
  by (induction xs) auto

lemma collapse_solid:
  "\<exists>c \<in> set s. \<not> is_space c \<Longrightarrow> \<exists>c \<in> set (collapse_ws s). \<not> is_space c"
proof (induction s rule: collapse_ws.induct)
  case 1
  then show ?case by simp
next
  case (2 x xs)
  show ?case
  proof (cases "is_space x \<and> first_is is_space xs")
    case True
    with "2.prems" have "\<exists>c \<in> set xs. \<not> is_space c"
      by auto
    then have "\<exists>c \<in> set (dropWhile is_space xs). \<not> is_space c"
      by (rule solid_dropWhile)
    with "2.IH"(1) True show ?thesis
      by auto
  next
    case False
    with "2.prems" "2.IH"(2) show ?thesis
      by (cases "is_space x") auto
  qed
qed

lemma strip_solid:
  "\<exists>c \<in> set s. \<not> is_space c \<Longrightarrow> \<exists>c \<in> set (strip_ws_before_punct s). \<not> is_space c"
proof (induction s rule: strip_ws_before_punct.induct)
  case 1
  then show ?case by simp
next
  case (2 x xs)
  show ?case
  proof (cases "is_space x \<and> first_is is_punct (dropWhile is_space xs)")
    case True
    then have "is_punct (hd (dropWhile is_space xs))"
      using first_is_hd by blast
    then have "\<not> is_space (hd (dropWhile is_space xs))"
      using space_not_punct by blast
    with True show ?thesis
      by simp
  next
    case False
    with "2.prems" "2.IH"(2) show ?thesis
      by (cases "is_space x") auto
  qed
qed

lemma after_solid:
  "\<exists>c \<in> set s. \<not> is_space c \<Longrightarrow> \<exists>c \<in> set (space_after_stop s). \<not> is_space c"
proof (induction s rule: space_after_stop.induct)
  case 1
  then show ?case by simp
next
  case (2 x xs)
  show ?case
  proof (cases "is_stop x \<and> first_is is_lower (dropWhile is_space xs)")
    case True
    then have "\<not> is_space x"
      using space_not_stop by blast
    with True show ?thesis
      by simp
  next
    case False
    with "2.prems" "2.IH"(2) show ?thesis
      by (cases "is_space x") auto
  qed
qed

lemma capital_solid:
  "\<exists>c \<in> set s. \<not> is_space c \<Longrightarrow> \<exists>c \<in> set (capital_after_stop s). \<not> is_space c"
proof (induction s rule: capital_after_stop.induct)
  case 1
  then show ?case by simp
next
  case (2 x xs)
  show ?case
  proof (cases "is_stop x \<and> first_is is_space xs \<and> first_is is_lower (dropWhile is_space xs)")
    case True
    then have "\<not> is_space x"
      using space_not_stop by blast
    with True show ?thesis
      by simp
  next
    case False
    with "2.prems" "2.IH"(2) show ?thesis
      by (cases "is_space x") auto
  qed
qed

lemma flowPasses_solid: "trim t \<noteq> [] \<Longrightarrow> trim (flowPasses t) \<noteq> []"
  unfolding trim_Nil_iff flowPasses_def flowSpaces_scan flowBeforePunct_scan flowAfterPunct_scan
    flowCapitals_scan
  using collapse_solid strip_solid after_solid capital_solid by blast

lemma flowPasses_Nil: "flowPasses [] = []"
  by (simp add: flowPasses_def flowSpaces_scan flowBeforePunct_scan flowAfterPunct_scan
        flowCapitals_scan)

text \<open>
  Claim C5. The method hands the text to the language library first
  (\<^verbatim>\<open>compromise(text).text()\<close>), which is not part of the source; what comes back is an
  input of this model, \<open>docText\<close>. The library gives a text back as it is, except that a
  text of white space only comes back empty; or it throws, and the method returns its
  argument. With a library that does so, applying \<^verbatim>\<open>improveTextFlow\<close> to its own result
  changes nothing, whatever the text.
\<close>

theorem C5_improveTextFlow_idempotent:
  assumes "\<forall>u. docText u = None \<or> docText u = Some (if trim u = [] then [] else u)"
  shows "improveTextFlow docText (improveTextFlow docText s) = improveTextFlow docText s"
proof -
  have f: "improveTextFlow docText u =
             (if docText u = None then u else if trim u = [] then [] else flowPasses u)" for u
    using assms [rule_format, of u]
    by (auto simp add: improveTextFlow_def flowPasses_def flowSpaces_scan flowBeforePunct_scan
          flowAfterPunct_scan flowCapitals_scan)
  have t: "trim [] = []"
    by (simp add: trim_def trimEnd_def trimStart_def)
  show ?thesis
  proof (cases "docText s = None")
    case True
    then show ?thesis
      by (simp add: f)
  next
    case False
    show ?thesis
    proof (cases "trim s = []")
      case True
      with False show ?thesis
        by (simp add: f t)
    next
      case n: False
      then have "trim (flowPasses s) \<noteq> []"
        by (rule flowPasses_solid)
      with False n show ?thesis
        by (simp add: f flowPasses_idem)
    qed
  qed
qed

theorem C5_improveTextFlow_idempotent_witness:
  "improveTextFlow (\<lambda>u. Some (if trim u = [] then [] else u)) ''One  two ,three.four''
     = ''One two,three. Four''
   \<and> improveTextFlow (\<lambda>u. Some (if trim u = [] then [] else u))
        (improveTextFlow (\<lambda>u. Some (if trim u = [] then [] else u)) ''One  two ,three.four'')
     = improveTextFlow (\<lambda>u. Some (if trim u = [] then [] else u)) ''One  two ,three.four''
   \<and> improveTextFlow (\<lambda>u. Some (if trim u = [] then [] else u)) '' '' = []
   \<and> improveTextFlow (\<lambda>u. Some (if trim u = [] then [] else u))
        (improveTextFlow (\<lambda>u. Some (if trim u = [] then [] else u)) '' '')
     = improveTextFlow (\<lambda>u. Some (if trim u = [] then [] else u)) '' ''"
proof -
  let ?lib = "\<lambda>u::string. Some (if trim u = [] then [] else u)"
  have h: "\<forall>u. ?lib u = None \<or> ?lib u = Some (if trim u = [] then [] else u)"
    by simp
  have e: "improveTextFlow ?lib ''One  two ,three.four'' = ''One two,three. Four''"
    by code_simp
  have b: "improveTextFlow ?lib '' '' = []"
    by code_simp
  from C5_improveTextFlow_idempotent [OF h, of "''One  two ,three.four''"]
    C5_improveTextFlow_idempotent [OF h, of "'' ''"] e b
  show ?thesis
    by (intro conjI)
qed

subsection \<open>The spell check and the line structure\<close>

text \<open>The split at white space.\<close>

lemma match_space_run:
  "matches (Many 1 None Space) (p, x # xs, []) =
     (if is_space x
      then advance (length (takeWhile is_space (x # xs))) (p, x # xs, [])
           # map (\<lambda>j. advance j (p, x # xs, [])) (rev [1 ..< length (takeWhile is_space (x # xs))])
      else [])"
  by (auto simp add: matches.simps)

lemma split_go_scan: "split_go (Many 1 None Space) p r cur = split_ws r cur"
proof (induction r cur arbitrary: p rule: split_ws.induct)
  case (1 cur)
  show ?case by (subst split_go.simps) simp
next
  case (2 x xs cur)
  show ?case
  proof (cases "is_space x")
    case True
    have a: "advance (length (takeWhile is_space (x # xs))) (p, x # xs, [])
               = (Some (last (takeWhile is_space (x # xs))), dropWhile is_space xs, [])"
      using True by (simp only: advance_span) simp
    have m: "matches (Many 1 None Space) (p, x # xs, [])
               = (Some (last (takeWhile is_space (x # xs))), dropWhile is_space xs, [])
                 # map (\<lambda>j. advance j (p, x # xs, [])) (rev [1 ..< length (takeWhile is_space (x # xs))])"
      using True by (simp only: match_space_run a simp_thms if_True)
    show ?thesis
      using 2(1) [OF True] True dropWhile_less [of is_space xs x]
      by (subst split_go.simps) (simp add: m del: takeWhile.simps One_nat_def)
  next
    case False
    then have m: "matches (Many 1 None Space) (p, x # xs, []) = []"
      by (simp only: match_space_run simp_thms if_False)
    show ?thesis
      using 2(2) [OF False] False
      by (subst split_go.simps) (simp add: m del: One_nat_def)
  qed
qed

lemma re_split_scan: "re_split (Many 1 None Space) t = split_ws t []"
  by (cases t) (simp_all add: re_split_def split_go_scan matches.simps del: One_nat_def)

lemma split_ws_tokens:
  "\<forall>c \<in> set cur. \<not> is_space c \<Longrightarrow> tok \<in> set (split_ws r cur) \<Longrightarrow> c \<in> set tok \<Longrightarrow> \<not> is_space c"
  by (induction r cur rule: split_ws.induct) (auto split: if_splits)

text \<open>What a corrected word is made of.\<close>

lemma starts_with_set: "starts_with s pat \<Longrightarrow> set pat \<subseteq> set s"
  by (induction s pat rule: starts_with.induct) auto

lemma set_substitution:
  "set (substitution pre matched post repl) \<subseteq> set pre \<union> set matched \<union> set post \<union> set repl"
  by (induction pre matched post repl rule: substitution.induct) auto

lemma set_replace_first_from:
  "set (replace_first_from pre s pat repl) \<subseteq> set pre \<union> set s \<union> set repl"
proof (induction s arbitrary: pre)
  case Nil
  show ?case using set_substitution [of pre "[]" "[]" repl] by auto
next
  case (Cons x xs)
  show ?case
  proof (cases "starts_with (x # xs) pat")
    case True
    have "set (drop (length pat) (x # xs)) \<subseteq> set (x # xs)"
      by (rule set_drop_subset)
    with True starts_with_set [OF True]
      set_substitution [of pre pat "drop (length pat) (x # xs)" repl]
    show ?thesis
      by (simp del: drop.simps starts_with.simps) blast
  next
    case False
    with Cons [of "pre @ [x]"] show ?thesis by auto
  qed
qed

lemma chosen_suggestion:
  "chooseBestSuggestion w suggestions aggr = Some b \<Longrightarrow> b \<in> set suggestions"
  by (cases suggestions) (auto simp add: chooseBestSuggestion_def Let_def split: if_splits)

lemma set_spellCheckWord:
  assumes "c \<in> set (spellCheckWord sc dict aggr word)"
  shows "c \<in> set word \<or> (\<exists>s \<in> set (checker_suggest sc (cleanWordOf word)). c \<in> set s)"
proof (cases "spellCheckWord sc dict aggr word = word")
  case True
  with assms show ?thesis by simp
next
  case False
  then obtain b where b: "chooseBestSuggestion (cleanWordOf word)
        (checker_suggest sc (cleanWordOf word)) aggr = Some b"
    and r: "spellCheckWord sc dict aggr word = replace_first word (cleanWordOf word) b"
    by (auto simp add: spellCheckWord_def Let_def split: if_splits option.splits)
  from assms r set_replace_first_from [of "[]" word "cleanWordOf word" b]
  have "c \<in> set word \<or> c \<in> set b"
    by (auto simp add: replace_first_def)
  with chosen_suggestion [OF b] show ?thesis by auto
qed

lemma set_join: "c \<in> set (join sep xs) \<Longrightarrow> c \<in> set sep \<or> (\<exists>x \<in> set xs. c \<in> set x)"
  by (induction sep xs rule: join.induct) auto

lemma LF_space: "is_space LF"
  by (simp add: is_space_def LF_def)

lemma spellCheck_no_LF:
  assumes "\<forall>w. \<forall>s \<in> set (checker_suggest sc w). LF \<notin> set s"
  shows "LF \<notin> set (performSpellCheck (Some sc) dict t aggr)"
proof
  assume "LF \<in> set (performSpellCheck (Some sc) dict t aggr)"
  then have "LF \<in> set (join '' '' (map (spellCheckWord sc dict aggr) (split_ws t [])))"
    by (simp add: performSpellCheck_def re_split_scan del: One_nat_def)
  from set_join [OF this] obtain tok where tok: "tok \<in> set (split_ws t [])"
    and l: "LF \<in> set (spellCheckWord sc dict aggr tok)"
    by (auto simp add: LF_def)
  from set_spellCheckWord [OF l] assms have "LF \<in> set tok"
    by blast
  with split_ws_tokens [OF _ tok, of LF] LF_space show False
    by simp
qed

text \<open>The passes after the spell check add no line feed.\<close>

lemma hd_dropWhile_in: "first_is Q (dropWhile P xs) \<Longrightarrow> hd (dropWhile P xs) \<in> set xs"
  by (metis first_is_hd list.set_intros(1) set_dropWhileD)

lemma tl_dropWhile_in: "c \<in> set (tl (dropWhile P xs)) \<Longrightarrow> c \<in> set xs"
  by (metis list.set_sel(2) set_dropWhileD tl_Nil)

lemma collapse_no_LF: "LF \<notin> set r \<Longrightarrow> LF \<notin> set (collapse_ws r)"
  by (induction r rule: collapse_ws.induct) (auto simp add: LF_def dest: set_dropWhileD)

lemma strip_no_LF: "LF \<notin> set r \<Longrightarrow> LF \<notin> set (strip_ws_before_punct r)"
  by (induction r rule: strip_ws_before_punct.induct)
     (auto dest: hd_dropWhile_in tl_dropWhile_in)

lemma after_no_LF: "LF \<notin> set r \<Longrightarrow> LF \<notin> set (space_after_stop r)"
  by (induction r rule: space_after_stop.induct)
     (auto simp add: LF_def dest: hd_dropWhile_in tl_dropWhile_in)

lemma capital_no_LF: "LF \<notin> set r \<Longrightarrow> LF \<notin> set (capital_after_stop r)"
proof (induction r rule: capital_after_stop.induct)
  case 1
  show ?case by simp
next
  case (2 x xs)
  show ?case
  proof (cases "is_stop x \<and> first_is is_space xs \<and> first_is is_lower (dropWhile is_space xs)")
    case True
    then have "is_lower (hd (dropWhile is_space xs))"
      by (auto dest: first_is_hd)
    then have "upper_char (hd (dropWhile is_space xs)) \<noteq> LF"
      using upper_not_space LF_space by metis
    moreover have "LF \<notin> set (tl (dropWhile is_space xs))"
      using 2(3) by (auto dest: tl_dropWhile_in)
    moreover have "LF \<notin> set (takeWhile is_space xs)"
      using 2(3) by (auto dest: set_takeWhileD)
    ultimately show ?thesis
      using True 2(1) [OF True] 2(3) by auto
  next
    case False
    with 2(2) [OF False] 2(3) show ?thesis by auto
  qed
qed

lemma flowPasses_no_LF: "LF \<notin> set t \<Longrightarrow> LF \<notin> set (flowPasses t)"
  by (simp add: flowPasses_def flowSpaces_scan flowBeforePunct_scan flowAfterPunct_scan
        flowCapitals_scan collapse_no_LF strip_no_LF after_no_LF capital_no_LF)

lemma no_LF_run: "LF \<notin> set r \<Longrightarrow> matches (Many 3 None (OneOf [LF])) (p, r, []) = []"
  by (cases r) (auto simp add: matches.simps)

lemma replace_no_LF: "LF \<notin> set r \<Longrightarrow> replace_go (Many 3 None (OneOf [LF])) f p r = r"
proof (induction r arbitrary: p)
  case Nil
  show ?case by (simp add: replace_go_Nil no_LF_run)
next
  case (Cons x xs)
  then show ?case
    by (simp add: replace_go_nomatch no_LF_run)
qed

lemma split_on_absent: "c \<notin> set t \<Longrightarrow> split_on c t = [t]"
  by (induction t) auto

lemma set_trim: "set (trim t) \<subseteq> set t"
  by (auto simp add: trim_def trimEnd_def trimStart_def dest!: set_dropWhileD)

lemma textFinalCleanup_no_LF: "LF \<notin> set t \<Longrightarrow> LF \<notin> set (textFinalCleanup t)"
  using set_trim [of "trim t"] set_trim [of t]
  by (auto simp add: textFinalCleanup_def Let_def replace_all_def replace_no_LF split_on_absent)

text \<open>
  Claim C3. The spell check splits the text at every run of white space and joins the words
  with single spaces: provided that the checker suggests no word with a line feed in it, the
  result has no line feed. With the spell check enabled, and provided that the language
  library of the flow pass adds no line feed either, the text that \<^verbatim>\<open>processText\<close> hands to
  the markdown generator is therefore one line, whatever the structure reconstruction made
  of it.
\<close>

theorem C3_spell_check_removes_line_feeds:
  assumes "\<forall>w. \<forall>s \<in> set (checker_suggest sc w). LF \<notin> set s"
    and "\<forall>u v. docText u = Some v \<longrightarrow> LF \<notin> set u \<longrightarrow> LF \<notin> set v"
    and "spellChecker this = None \<or> spellChecker this = Some sc"
    and "enableSpellCheck stg"
    and "trim (extractText ocrResults) \<noteq> []"
  shows "LF \<notin> set (performSpellCheck (Some sc) dict t aggressiveMode)
         \<and> LF \<notin> set (fst (processText sc docText this ocrResults stg))"
proof -
  have s: "LF \<notin> set (performSpellCheck (Some sc) d u a)" for d u a
    using assms(1) by (rule spellCheck_no_LF)
  have i: "LF \<notin> set (improveTextFlow docText u)" if "LF \<notin> set u" for u
    using that assms(2) flowPasses_no_LF
    by (auto simp add: improveTextFlow_def flowPasses_def split: option.splits)
  have c: "(if spellChecker this = None then this\<lparr> spellChecker := Some sc \<rparr> else this)
             = this\<lparr> spellChecker := Some sc \<rparr>"
    using assms(3) by auto
  from assms(5) have e: "extractText ocrResults \<noteq> []"
    by (auto simp add: trim_def trimEnd_def trimStart_def)
  have "LF \<notin> set (fst (processText sc docText this ocrResults stg))"
    unfolding processText_def Let_def c
    using assms(4) assms(5) e by (simp add: s i textFinalCleanup_no_LF)
  with s show ?thesis
    by simp
qed

theorem C3_spell_check_removes_line_feeds_witness:
  "enableSpellCheck defaultSettings
   \<and> trim (extractText (OcrString ''HELLO WORLD\<newline>\<newline>This is a test.'')) \<noteq> []
   \<and> performSpellCheck (Some Fallback) {} ''First line\<newline>second\<newline>\<newline>third'' False
       = ''First line second third''
   \<and> LF \<notin> set (performSpellCheck (Some Fallback) {} ''First line\<newline>second\<newline>\<newline>third'' False)
   \<and> LF \<notin> set (fst (processText Fallback Some \<lparr> spellChecker = None, customDictionary = {} \<rparr>
                        (OcrString ''HELLO WORLD\<newline>\<newline>This is a test.'') defaultSettings))"
proof -
  have h1: "\<forall>w. \<forall>s \<in> set (checker_suggest Fallback w). LF \<notin> set s"
  proof (intro allI ballI)
    fix w s assume "s \<in> set (checker_suggest Fallback w)"
    then have "s \<in> set (getSuggestions w)"
      by (simp add: checker_suggest_def)
    then have "s \<in> set (filter (\<lambda>candidate. LevenshteinDistance (toLowerCase w) candidate \<le> 2)
                 [''the'', ''and'', ''that'', ''have'', ''for'', ''not'', ''with'', ''you'',
                  ''this'', ''but''])"
      unfolding getSuggestions_def by (rule in_set_takeD)
    then have "s \<in> set [''the'', ''and'', ''that'', ''have'', ''for'', ''not'', ''with'', ''you'',
                         ''this'', ''but'']"
      by (rule subsetD [OF filter_is_subset])
    then show "LF \<notin> set s"
      by (auto simp add: LF_def)
  qed
  have h2: "\<forall>u v. Some u = Some v \<longrightarrow> LF \<notin> set u \<longrightarrow> LF \<notin> set (v::string)"
    by simp
  have h3: "spellChecker \<lparr> spellChecker = None, customDictionary = {} \<rparr> = None
            \<or> spellChecker \<lparr> spellChecker = None, customDictionary = {} \<rparr> = Some Fallback"
    by simp
  have h4: "enableSpellCheck defaultSettings"
    by (simp add: defaultSettings_def)
  have h5: "trim (extractText (OcrString ''HELLO WORLD\<newline>\<newline>This is a test.'')) \<noteq> []"
    by code_simp
  have e: "performSpellCheck (Some Fallback) {} ''First line\<newline>second\<newline>\<newline>third'' False
             = ''First line second third''"
    by code_simp
  from C3_spell_check_removes_line_feeds [OF h1 h2 h3 h4 h5,
         of "{}" "''First line\<newline>second\<newline>\<newline>third''" False]
    h4 h5 e
  show ?thesis
    by (intro conjI) simp_all
qed

end
